theory Spec2Isabelle
  imports Complex_Main "HOL-Library.Char_ord" "HOL-Library.List_Lexorder"
begin

section \<open>The agents of rts/game\_MC/ai.h\<close>

text \<open>
  The header declares the agents of the Mini-RTS game: \<open>TrainedAI\<close>, the rule-based
  \<open>SimpleAI\<close>, \<open>HitAndRunAI\<close> and \<open>LuaAI\<close>, and \<open>MixedAI\<close>, which owns a backup
  agent and a main agent and hands control from the first to the second at a random
  tick of each game.

  The base class \<open>elf::AI_T\<close> (elf/ai.h), the option struct \<open>AIOptions\<close>
  (python\_options.h), \<open>CmdLineUtils::split\<close> (engine/cmd\_util.h),
  \<open>CircularQueue\<close> (elf/circular\_queue.h) and the member functions defined in ai.cc
  are outside the header. What the header calls of them is either taken as a parameter
  (the record \<open>env\<close>) or modelled from the specification, and marked so.
\<close>

subsection \<open>Errors\<close>

text \<open>
  Every way a call can fail to return is a value: dereferencing an empty
  \<open>std::unique_ptr\<close>, an integer division by zero, a signed overflow or a conversion
  of a floating-point value to \<open>int\<close> that is out of range (both undefined), and the
  two exceptions of \<open>std::stoi\<close> and \<open>std::stof\<close>.
\<close>

datatype error =
    NullPointer
  | DivByZero
  | IntOverflow
  | InvalidArgument
  | OutOfRange

subsection \<open>The base class and the owned agents\<close>

type_synonym Tick = int

text \<open>
  Modelled from the spec: the base class \<open>elf::AI_T\<close> is not in the header. Of its
  state the header reads \<open>id()\<close>, \<open>s_ptr()\<close> and \<open>s()\<close>: the bound identity and the
  non-owning pointer to the shared game state (\<open>None\<close> is \<open>nullptr\<close>). The name and
  the frame skip handed to its constructor are not read by the header and are left out.
\<close>

record ('id, 'st) AI =
  ai_id :: 'id
  s_ptr :: "'st option"

datatype variant = SimpleAI | HitAndRunAI | LuaAI | TrainedAI | OtherAI

text \<open>
  An agent owned by \<open>MixedAI\<close>: the base part, its dynamic class, and the state
  \<open>impl\<close> of the derived class, whose type is left open.
\<close>

record ('id, 'st, 'i) agent = "('id, 'st) AI" +
  variant :: variant
  impl :: 'i

text \<open>
  The code of the owned agents that the header calls and does not define, as
  parameters: what a freshly constructed agent holds, \<open>Act\<close> and \<open>GameEnd\<close> of an
  agent (each returns its result and the agent's new derived state; \<open>Act\<close> also the
  action written through the pointer), the hooks \<open>on_set_id\<close> and \<open>on_set_state\<close>,
  and the stream of numbers \<open>std::mt19937\<close> yields from a seed.
\<close>

record ('id, 'st, 'act, 'i) env =
  init_id :: 'id
  init_impl :: "variant \<Rightarrow> 'i"
  sub_Act :: "('id, 'st, 'i) agent \<Rightarrow> Tick \<Rightarrow> 'act \<Rightarrow> bool \<Rightarrow> bool \<times> 'act \<times> 'i"
  sub_GameEnd :: "('id, 'st, 'i) agent \<Rightarrow> Tick \<Rightarrow> bool \<times> 'i"
  sub_on_set_id :: "('id, 'st, 'i) agent \<Rightarrow> 'i"
  sub_on_set_state :: "('id, 'st, 'i) agent \<Rightarrow> 'i"
  mt19937 :: "nat \<Rightarrow> nat \<Rightarrow> nat"

text \<open>
  Modelled from the spec: \<open>AI_T::SetId\<close> and \<open>AI_T::SetState\<close> of an owned agent
  are not in the header. Section 4.1 has them bind the identity and the state
  reference; the hook of the agent's class then runs on the bound agent. The
  constructor of \<open>MixedAI\<close> (line 112) rebinds a backup agent that \<open>on_set_id\<close> binds
  again later, so a second binding replaces the first.
\<close>

definition SetId :: "('id, 'st, 'act, 'i) env \<Rightarrow> 'id \<Rightarrow> ('id, 'st, 'i) agent \<Rightarrow> ('id, 'st, 'i) agent" where
  "SetId e x a = (let a1 = a\<lparr>ai_id := x\<rparr> in a1\<lparr>impl := sub_on_set_id e a1\<rparr>)"

definition SetState :: "('id, 'st, 'act, 'i) env \<Rightarrow> 'st \<Rightarrow> ('id, 'st, 'i) agent \<Rightarrow> ('id, 'st, 'i) agent" where
  "SetState e y a = (let a1 = a\<lparr>s_ptr := Some y\<rparr> in a1\<lparr>impl := sub_on_set_state e a1\<rparr>)"

text \<open>\<open>new SimpleAI(opt2)\<close> and \<open>new HitAndRunAI(opt2)\<close>: a fresh agent of the class.\<close>

definition new_agent :: "('id, 'st, 'act, 'i) env \<Rightarrow> variant \<Rightarrow> ('id, 'st, 'i) agent" where
  "new_agent e v = \<lparr>ai_id = init_id e, s_ptr = None, variant = v, impl = init_impl e v\<rparr>"

subsection \<open>Arithmetic of the machine types\<close>

definition in_int_range :: "int \<Rightarrow> bool" where
  "in_int_range x = (- (2 ^ 31) \<le> x \<and> x < 2 ^ 31)"

text \<open>
  \<open>_rng()\<close> yields an unsigned number below \<open>2 ^ 32\<close> of type \<open>uint_fast32_t\<close>
  (64 bits wide on LP64 Linux); in \<open>_rng() % n\<close> the \<open>int\<close> \<open>n\<close> is converted to that
  unsigned type, and the remainder is converted to \<open>Tick\<close>, a 32-bit \<open>int\<close>.
\<close>

definition rng_draw :: "(nat \<Rightarrow> nat) \<Rightarrow> int \<times> (nat \<Rightarrow> nat)" where
  "rng_draw g = (int (g 0 mod 2 ^ 32), \<lambda>n. g (Suc n))"

definition to_unsigned :: "int \<Rightarrow> int" where
  "to_unsigned n = n mod 2 ^ 64"

definition to_Tick :: "int \<Rightarrow> Tick" where
  "to_Tick u = (u + 2 ^ 31) mod 2 ^ 32 - 2 ^ 31"

subsection \<open>Single precision\<close>

text \<open>
  A value of the type \<open>float\<close> (IEEE 754 binary32): a finite number, given by the
  real it denotes, an infinity with its sign (\<open>True\<close> for the negative one), or a NaN.
\<close>

datatype float = Finite real | Infinity bool | NaN

text \<open>
  Rounding to single precision, to nearest with ties to the even significand: a real
  \<open>x\<close> with \<open>2 ^ e \<le> \<bar>x\<bar> < 2 ^ (e + 1)\<close> is rounded to a multiple of
  \<open>2 ^ (e - 23)\<close>, so that 24 significant bits remain. \<open>bits n\<close> is the number of
  binary digits of \<open>n\<close>, \<open>pow2 k\<close> is \<open>2 ^ k\<close> for an integer \<open>k\<close>, and
  \<open>exponent x\<close> is the \<open>e\<close> above. The exponent is not bounded here: where the
  result matters below, a value beyond the largest \<open>float\<close> is out of the range of
  \<open>int\<close> as well, and a value below the smallest normal one is less than 1.
\<close>

fun bits :: "nat \<Rightarrow> nat" where
  "bits n = (if n = 0 then 0 else Suc (bits (n div 2)))"

declare bits.simps [simp del]

definition pow2 :: "int \<Rightarrow> real" where
  "pow2 k = (if 0 \<le> k then 2 ^ nat k else 1 / 2 ^ nat (- k))"

definition exponent :: "real \<Rightarrow> int" where
  "exponent x =
     (if 1 \<le> \<bar>x\<bar> then int (bits (nat \<lfloor>\<bar>x\<bar>\<rfloor>)) - 1
      else - int (bits (nat (\<lceil>1 / \<bar>x\<bar>\<rceil> - 1))))"

definition round_even :: "real \<Rightarrow> int" where
  "round_even y =
     (if y - of_int \<lfloor>y\<rfloor> < 1 / 2 then \<lfloor>y\<rfloor>
      else if 1 / 2 < y - of_int \<lfloor>y\<rfloor> then \<lfloor>y\<rfloor> + 1
      else if even \<lfloor>y\<rfloor> then \<lfloor>y\<rfloor> else \<lfloor>y\<rfloor> + 1)"

definition fl :: "real \<Rightarrow> real" where
  "fl x = (if x = 0 then 0
           else of_int (round_even (x / pow2 (exponent x - 23))) * pow2 (exponent x - 23))"

text \<open>The conversion of a floating-point value to \<open>int\<close> drops the fraction.\<close>

definition float_to_int :: "real \<Rightarrow> int" where
  "float_to_int x = (if 0 \<le> x then \<lfloor>x\<rfloor> else \<lceil>x\<rceil>)"

text \<open>
  \<open>_latest_start *= _latest_start_decay\<close> (line 132): the \<open>int\<close> is converted to
  \<open>float\<close>, the product is formed in single precision and converted back to \<open>int\<close>.
  The conversion back is undefined when the product is an infinity or a NaN (with an
  infinite or NaN decay it always is) or when its integral part is no \<open>int\<close>.
\<close>

definition decay_step :: "float \<Rightarrow> int \<Rightarrow> error + int" where
  "decay_step D L =
     (case D of
        Finite d \<Rightarrow>
          (let x = float_to_int (fl (fl (real_of_int L) * d))
           in if in_int_range x then Inr x else Inl IntOverflow)
      | Infinity sign \<Rightarrow> Inl IntOverflow
      | NaN \<Rightarrow> Inl IntOverflow)"

subsection \<open>MixedAI: the state\<close>

text \<open>
  The members of \<open>MixedAI\<close> with the types of the header: \<open>_latest_start\<close> is an
  \<open>int\<close>, \<open>_latest_start_decay\<close> a \<open>float\<close>. \<open>rng\<close> is the stream of numbers the
  generator has yet to yield, and \<open>cout\<close> the lines written to the standard output.
\<close>

record ('id, 'st, 'i) MixedAI = "('id, 'st) AI" +
  backup_ai :: "('id, 'st, 'i) agent option"
  main_ai :: "('id, 'st, 'i) agent option"
  backup_ai_tick_thres :: Tick
  rng :: "nat \<Rightarrow> nat"
  latest_start :: int
  latest_start_decay :: float
  cout :: "string list"

subsection \<open>MixedAI::GameEnd\<close>

text \<open>
  Lines 125-138. \<open>AI::GameEnd(t)\<close> of the base class is called first and its result
  dropped; it has no access to the members of \<open>MixedAI\<close> and is not modelled. Then
  the main agent's \<open>GameEnd\<close> runs (through the pointer, which may be empty),
  \<open>_latest_start\<close> is multiplied by the decay, and the threshold is drawn as
  \<open>_rng() % (int(_latest_start + 0.5) + 1)\<close>, where the sum with the \<open>double\<close> 0.5 is
  exact.
\<close>

definition GameEnd ::
  "('id, 'st, 'act, 'i) env \<Rightarrow> Tick \<Rightarrow> ('id, 'st, 'i) MixedAI \<Rightarrow> error + (bool \<times> ('id, 'st, 'i) MixedAI)" where
  "GameEnd e t m =
     (case main_ai m of
        None \<Rightarrow> Inl NullPointer
      | Some a \<Rightarrow>
          (let (res, i) = sub_GameEnd e a t;
               m1 = m\<lparr>main_ai := Some (a\<lparr>impl := i\<rparr>)\<rparr>
           in case decay_step (latest_start_decay m1) (latest_start m1) of
                Inl err \<Rightarrow> Inl err
              | Inr x \<Rightarrow>
                  (let m2 = m1\<lparr>latest_start := x\<rparr>;
                       n = float_to_int (real_of_int (latest_start m2) + 0.5) + 1
                   in if \<not> in_int_range n then Inl IntOverflow
                      else
                        (let (r, g) = rng_draw (rng m2);
                             d = to_unsigned n
                         in if d = 0 then Inl DivByZero
                            else Inr (res, m2\<lparr>backup_ai_tick_thres := to_Tick (r mod d), rng := g\<rparr>)))))"

subsection \<open>MixedAI: binding, installing the main agent, acting\<close>

text \<open>
  Lines 168-178. The hooks of \<open>MixedAI\<close> hand the identity and the state on to each
  owned agent that is present. \<open>s()\<close> dereferences \<open>s_ptr()\<close>; it is evaluated only
  when an owned agent is present.
\<close>

definition on_set_id ::
  "('id, 'st, 'act, 'i) env \<Rightarrow> ('id, 'st, 'i) MixedAI \<Rightarrow> ('id, 'st, 'i) MixedAI" where
  "on_set_id e m =
     (let m1 = (if backup_ai m \<noteq> None
                then m\<lparr>backup_ai := map_option (SetId e (ai_id m)) (backup_ai m)\<rparr> else m)
      in if main_ai m1 \<noteq> None
         then m1\<lparr>main_ai := map_option (SetId e (ai_id m1)) (main_ai m1)\<rparr> else m1)"

definition on_set_state ::
  "('id, 'st, 'act, 'i) env \<Rightarrow> ('id, 'st, 'i) MixedAI \<Rightarrow> error + ('id, 'st, 'i) MixedAI" where
  "on_set_state e m =
     (if backup_ai m = None \<and> main_ai m = None then Inr m
      else case s_ptr m of
             None \<Rightarrow> Inl NullPointer
           | Some y \<Rightarrow>
               Inr (m\<lparr>backup_ai := map_option (SetState e y) (backup_ai m),
                      main_ai := map_option (SetState e y) (main_ai m)\<rparr>))"

text \<open>
  Modelled from the spec: \<open>SetId\<close> and \<open>SetState\<close> of the base class, called on the
  \<open>MixedAI\<close> itself, store the binding and run the hook above.
\<close>

definition MixedAI_SetId ::
  "('id, 'st, 'act, 'i) env \<Rightarrow> 'id \<Rightarrow> ('id, 'st, 'i) MixedAI \<Rightarrow> ('id, 'st, 'i) MixedAI" where
  "MixedAI_SetId e x m = on_set_id e (m\<lparr>ai_id := x\<rparr>)"

definition MixedAI_SetState ::
  "('id, 'st, 'act, 'i) env \<Rightarrow> 'st \<Rightarrow> ('id, 'st, 'i) MixedAI \<Rightarrow> error + ('id, 'st, 'i) MixedAI" where
  "MixedAI_SetState e y m = on_set_state e (m\<lparr>s_ptr := Some y\<rparr>)"

text \<open>
  Lines 119-123. The argument is a raw pointer (\<open>None\<close> is \<open>nullptr\<close>); the agent is
  stored first and then bound through the stored pointer.
\<close>

definition SetMainAI ::
  "('id, 'st, 'act, 'i) env \<Rightarrow> ('id, 'st, 'i) agent option \<Rightarrow> ('id, 'st, 'i) MixedAI
     \<Rightarrow> error + ('id, 'st, 'i) MixedAI" where
  "SetMainAI e p m =
     (case p of
        None \<Rightarrow> Inl NullPointer
      | Some a \<Rightarrow>
          (let a1 = SetId e (ai_id m) a
           in Inr (m\<lparr>main_ai := Some (case s_ptr m of None \<Rightarrow> a1 | Some y \<Rightarrow> SetState e y a1)\<rparr>)))"

text \<open>\<open>p->Act(t, a, done)\<close> through an owning pointer \<open>p\<close>.\<close>

definition ptr_Act ::
  "('id, 'st, 'act, 'i) env \<Rightarrow> ('id, 'st, 'i) agent option \<Rightarrow> Tick \<Rightarrow> 'act \<Rightarrow> bool
     \<Rightarrow> error + (bool \<times> 'act \<times> ('id, 'st, 'i) agent)" where
  "ptr_Act e p t a done =
     (case p of
        None \<Rightarrow> Inl NullPointer
      | Some b \<Rightarrow> (let (r, a', i) = sub_Act e b t a done in Inr (r, a', b\<lparr>impl := i\<rparr>)))"

text \<open>Lines 180-186. The result is the returned flag, the action written, and the new state.\<close>

definition on_act ::
  "('id, 'st, 'act, 'i) env \<Rightarrow> Tick \<Rightarrow> 'act \<Rightarrow> bool \<Rightarrow> ('id, 'st, 'i) MixedAI
     \<Rightarrow> error + (bool \<times> 'act \<times> ('id, 'st, 'i) MixedAI)" where
  "on_act e t a done m =
     (if backup_ai m \<noteq> None \<and> t < backup_ai_tick_thres m
      then (case ptr_Act e (backup_ai m) t a done of
              Inl err \<Rightarrow> Inl err
            | Inr (r, a', b') \<Rightarrow> Inr (r, a', m\<lparr>backup_ai := Some b'\<rparr>))
      else (case ptr_Act e (main_ai m) t a done of
              Inl err \<Rightarrow> Inl err
            | Inr (r, a', b') \<Rightarrow> Inr (r, a', m\<lparr>main_ai := Some b'\<rparr>)))"

subsection \<open>Reading the argument string\<close>

text \<open>
  Modelled from the spec: \<open>CmdLineUtils::split\<close> is not in the header. Section 4.4:
  the fields of a string are separated by one delimiter. The fields are the pieces
  between the delimiters, read from the left; an empty piece after the last delimiter
  is no field.
\<close>

fun split_from :: "string \<Rightarrow> char \<Rightarrow> string \<Rightarrow> string list" where
  "split_from [] d cur = (if cur = [] then [] else [cur])"
| "split_from (c # cs) d cur =
     (if c = d then cur # split_from cs d [] else split_from cs d (cur @ [c]))"

definition split :: "string \<Rightarrow> char \<Rightarrow> string list" where
  "split s d = split_from s d []"

text \<open>
  \<open>std::map<std::string, std::string>\<close> as a list of pairs in increasing order of
  the keys. \<open>insert\<close> keeps the value of a key that is already there.
\<close>

type_synonym kvmap = "(string \<times> string) list"

fun map_insert :: "string \<times> string \<Rightarrow> kvmap \<Rightarrow> kvmap" where
  "map_insert kv [] = [kv]"
| "map_insert kv (p # ps) =
     (if fst kv = fst p then p # ps
      else if fst kv < fst p then kv # p # ps
      else p # map_insert kv ps)"

text \<open>Lines 158-166: the loop of \<open>_parse\<close> over the items, and \<open>_parse\<close>.\<close>

fun parse_items :: "string list \<Rightarrow> kvmap \<Rightarrow> kvmap" where
  "parse_items [] kvmap = kvmap"
| "parse_items (item # items) kvmap =
     (let kv = split item (CHR ''/'')
      in if length kv \<noteq> 2 then parse_items items kvmap
         else parse_items items (map_insert (kv ! 0, kv ! 1) kvmap))"

definition parse :: "string \<Rightarrow> kvmap" where
  "parse s = parse_items (split s (CHR ''|'')) []"

text \<open>
  \<open>std::stoi\<close> and \<open>std::stof\<close> of the standard library, as libstdc++ has them
  over \<open>strtol\<close> and \<open>strtof\<close> of glibc in the C locale. Both skip leading white
  space, read an optional sign and the longest numeral that follows, and ignore the
  rest; they throw \<open>std::invalid_argument\<close> when there is no numeral and
  \<open>std::out_of_range\<close> when the value does not fit.
\<close>

definition isspace :: "char \<Rightarrow> bool" where
  "isspace c = (c \<in> set [CHR 0x20, CHR 0x09, CHR 0x0A, CHR 0x0B, CHR 0x0C, CHR 0x0D])"

definition isdigit :: "char \<Rightarrow> bool" where
  "isdigit c = (c \<in> set ''0123456789'')"

definition digit_val :: "char \<Rightarrow> nat" where
  "digit_val c = of_char c - 48"

definition digits_val :: "string \<Rightarrow> nat" where
  "digits_val ds = foldl (\<lambda>n c. 10 * n + digit_val c) 0 ds"

definition strip_sign :: "string \<Rightarrow> bool \<times> string" where
  "strip_sign s =
     (case s of
        [] \<Rightarrow> (False, [])
      | c # cs \<Rightarrow>
          if c = CHR ''-'' then (True, cs) else if c = CHR ''+'' then (False, cs) else (False, s))"

definition stoi :: "string \<Rightarrow> error + int" where
  "stoi s =
     (let (neg, r) = strip_sign (dropWhile isspace s);
          ds = takeWhile isdigit r
      in if ds = [] then Inl InvalidArgument
         else (let v = (if neg then - int (digits_val ds) else int (digits_val ds))
               in if in_int_range v then Inr v else Inl OutOfRange))"

definition lower :: "char \<Rightarrow> char" where
  "lower c = (if c \<in> set ''ABCDEFGHIJKLMNOPQRSTUVWXYZ'' then char_of (of_char c + (32::nat)) else c)"

text \<open>
  What \<open>strtof\<close> reads after the sign: \<open>inf\<close> or \<open>infinity\<close> and \<open>nan\<close> in any
  case of the letters; a hexadecimal numeral \<open>0x\<close> with hexadecimal digits, an
  optional point and an optional binary exponent \<open>p\<close>; or a decimal numeral with an
  optional point and an optional exponent \<open>e\<close>. A numeral needs a digit before or
  after the point, and an exponent is read only when digits follow its letter and
  sign; \<open>0x\<close> without a hexadecimal digit is the decimal numeral \<open>0\<close>.
\<close>

datatype literal = NoConversion | InfLiteral | NaNLiteral | Number real

definition hexdigit :: "char \<Rightarrow> bool" where
  "hexdigit c = (c \<in> set ''0123456789abcdefABCDEF'')"

definition hex_val :: "char \<Rightarrow> nat" where
  "hex_val c =
     (if isdigit c then of_char c - 48
      else if c \<in> set ''abcdef'' then of_char c - 87
      else of_char c - 55)"

definition hex_digits_val :: "string \<Rightarrow> nat" where
  "hex_digits_val ds = foldl (\<lambda>n c. 16 * n + hex_val c) 0 ds"

definition mantissa :: "(char \<Rightarrow> bool) \<Rightarrow> string \<Rightarrow> string \<times> string \<times> string" where
  "mantissa isd r =
     (let ip = takeWhile isd r; r1 = dropWhile isd r
      in if take 1 r1 = ''.'' then (ip, takeWhile isd (drop 1 r1), dropWhile isd (drop 1 r1))
         else (ip, [], r1))"

definition exponent_part :: "char \<Rightarrow> string \<Rightarrow> int" where
  "exponent_part c r =
     (if map lower (take 1 r) = [c]
      then (let (eneg, r3) = strip_sign (drop 1 r); ed = takeWhile isdigit r3
            in if eneg then - int (digits_val ed) else int (digits_val ed))
      else 0)"

definition scale10 :: "real \<Rightarrow> int \<Rightarrow> real" where
  "scale10 x k = (if 0 \<le> k then x * 10 ^ nat k else x / 10 ^ nat (- k))"

definition read_hex :: "string \<Rightarrow> literal" where
  "read_hex r =
     (let (ip, fp, r2) = mantissa hexdigit r
      in if ip = [] \<and> fp = [] then NoConversion
         else Number (real (hex_digits_val (ip @ fp))
                * pow2 (exponent_part (CHR ''p'') r2 - 4 * int (length fp))))"

definition read_dec :: "string \<Rightarrow> literal" where
  "read_dec r =
     (let (ip, fp, r2) = mantissa isdigit r
      in if ip = [] \<and> fp = [] then NoConversion
         else Number (scale10 (real (digits_val (ip @ fp)))
                (exponent_part (CHR ''e'') r2 - int (length fp))))"

definition read_float :: "string \<Rightarrow> literal" where
  "read_float r =
     (if map lower (take 3 r) = ''inf'' then InfLiteral
      else if map lower (take 3 r) = ''nan'' then NaNLiteral
      else if map lower (take 2 r) = ''0x'' \<and> read_hex (drop 2 r) \<noteq> NoConversion
      then read_hex (drop 2 r)
      else read_dec r)"

text \<open>
  The \<open>float\<close> of a magnitude \<open>x\<close> read with a sign. The value is rounded to single
  precision. A value that rounds to \<open>2 ^ 128\<close> or more overflows, and a value that
  stays below the smallest normal number \<open>2 ^ -126\<close> and is not one of the subnormal
  numbers, the multiples of \<open>2 ^ -149\<close>, underflows; \<open>strtof\<close> sets \<open>ERANGE\<close> in both
  cases and \<open>std::stof\<close> throws.
\<close>

definition to_float :: "bool \<Rightarrow> real \<Rightarrow> error + float" where
  "to_float neg x =
     (if 2 ^ 128 \<le> fl x then Inl OutOfRange
      else if x \<noteq> 0 \<and> fl x < 1 / 2 ^ 126
      then (if real_of_int (round_even (x * 2 ^ 149)) / 2 ^ 149 = x
            then Inr (Finite (if neg then - x else x))
            else Inl OutOfRange)
      else Inr (Finite (if neg then - fl x else fl x)))"

definition stof :: "string \<Rightarrow> error + float" where
  "stof s =
     (let (neg, r) = strip_sign (dropWhile isspace s)
      in case read_float r of
           NoConversion \<Rightarrow> Inl InvalidArgument
         | InfLiteral \<Rightarrow> Inr (Infinity neg)
         | NaNLiteral \<Rightarrow> Inr NaN
         | Number x \<Rightarrow> to_float neg x)"

subsection \<open>MixedAI: construction\<close>

text \<open>
  The fields of \<open>AIOptions\<close> that the header reads (the struct is declared in
  python\_options.h).
\<close>

record AIOptions =
  name :: string
  fs :: int
  fow :: bool
  num_frames_in_state :: int
  args :: string

definition unrecognized :: "string \<Rightarrow> string \<Rightarrow> string" where
  "unrecognized k v = ''Unrecognized (key, value) = ('' @ k @ '','' @ v @ '')''"

text \<open>Lines 92-109: the loop over the entries of the map, in the order of the keys.\<close>

fun ctor_loop ::
  "('id, 'st, 'act, 'i) env \<Rightarrow> kvmap \<Rightarrow> ('id, 'st, 'i) MixedAI \<Rightarrow> error + ('id, 'st, 'i) MixedAI" where
  "ctor_loop e [] m = Inr m"
| "ctor_loop e (kv # kvs) m =
     (if fst kv = ''start'' then
        (case stoi (snd kv) of
           Inl err \<Rightarrow> Inl err
         | Inr n \<Rightarrow> ctor_loop e kvs (m\<lparr>latest_start := n\<rparr>))
      else if fst kv = ''decay'' then
        (case stof (snd kv) of
           Inl err \<Rightarrow> Inl err
         | Inr x \<Rightarrow> ctor_loop e kvs (m\<lparr>latest_start_decay := x\<rparr>))
      else if fst kv = ''backup'' then
        (if snd kv = ''AI_SIMPLE'' \<or> snd kv = ''ai_simple''
         then ctor_loop e kvs (m\<lparr>backup_ai := Some (new_agent e SimpleAI)\<rparr>)
         else if snd kv = ''AI_HIT_AND_RUN'' \<or> snd kv = ''ai_hit_and_run''
         then ctor_loop e kvs (m\<lparr>backup_ai := Some (new_agent e HitAndRunAI)\<rparr>)
         else ctor_loop e kvs m)
      else ctor_loop e kvs (m\<lparr>cout := cout m @ [unrecognized (fst kv) (snd kv)]\<rparr>))"

text \<open>
  Lines 88-117. The object starts from the member initialisers of lines 146-156 and
  an unbound base part; \<open>now\<close> is the value of \<open>time(NULL)\<close> that seeds the
  generator at the end. A default-constructed \<open>std::mt19937\<close> has the seed 5489.
\<close>

definition fresh :: "('id, 'st, 'act, 'i) env \<Rightarrow> ('id, 'st, 'i) MixedAI" where
  "fresh e =
     \<lparr>ai_id = init_id e, s_ptr = None, backup_ai = None, main_ai = None,
      backup_ai_tick_thres = 0, rng = mt19937 e 5489, latest_start = 0,
      latest_start_decay = Finite 0, cout = []\<rparr>"

definition bind_backup ::
  "('id, 'st, 'act, 'i) env \<Rightarrow> ('id, 'st, 'i) MixedAI \<Rightarrow> ('id, 'st, 'i) MixedAI" where
  "bind_backup e m =
     (case backup_ai m of
        None \<Rightarrow> m
      | Some b \<Rightarrow>
          (let b1 = SetId e (ai_id m) b
           in m\<lparr>backup_ai := Some (case s_ptr m of None \<Rightarrow> b1 | Some y \<Rightarrow> SetState e y b1)\<rparr>))"

definition MixedAI_new ::
  "('id, 'st, 'act, 'i) env \<Rightarrow> nat \<Rightarrow> AIOptions \<Rightarrow> error + ('id, 'st, 'i) MixedAI" where
  "MixedAI_new e now opt =
     (if args opt \<noteq> []
      then (case ctor_loop e (parse (args opt)) (fresh e) of
              Inl err \<Rightarrow> Inl err
            | Inr m \<Rightarrow> Inr ((bind_backup e m)\<lparr>rng := mt19937 e now\<rparr>))
      else Inr ((fresh e)\<lparr>rng := mt19937 e now\<rparr>))"

subsection \<open>Driving a MixedAI\<close>

text \<open>
  The calls a driver makes on a constructed \<open>MixedAI\<close>, and the state after a
  sequence of them; the first call that fails ends the run. \<open>Act\<close> of the base class
  is outside the header: a call of \<open>Act\<close> is taken to reach \<open>on_act\<close> with the same tick.
\<close>

datatype ('id, 'st, 'act, 'i) call =
    CallAct Tick 'act bool
  | CallGameEnd Tick
  | CallSetId 'id
  | CallSetState 'st
  | CallSetMainAI "('id, 'st, 'i) agent option"

fun step ::
  "('id, 'st, 'act, 'i) env \<Rightarrow> ('id, 'st, 'act, 'i) call \<Rightarrow> ('id, 'st, 'i) MixedAI
     \<Rightarrow> error + ('id, 'st, 'i) MixedAI" where
  "step e (CallAct t a done) m = map_sum id (\<lambda>r. snd (snd r)) (on_act e t a done m)"
| "step e (CallGameEnd t) m = map_sum id snd (GameEnd e t m)"
| "step e (CallSetId x) m = Inr (MixedAI_SetId e x m)"
| "step e (CallSetState y) m = MixedAI_SetState e y m"
| "step e (CallSetMainAI p) m = SetMainAI e p m"

fun run ::
  "('id, 'st, 'act, 'i) env \<Rightarrow> ('id, 'st, 'act, 'i) call list \<Rightarrow> ('id, 'st, 'i) MixedAI
     \<Rightarrow> error + ('id, 'st, 'i) MixedAI" where
  "run e [] m = Inr m"
| "run e (c # cs) m = (case step e c m of Inl err \<Rightarrow> Inl err | Inr m' \<Rightarrow> run e cs m')"

fun is_GameEnd :: "('id, 'st, 'act, 'i) call \<Rightarrow> bool" where
  "is_GameEnd (CallGameEnd t) = True"
| "is_GameEnd c = False"

fun is_SetMainAI :: "('id, 'st, 'act, 'i) call \<Rightarrow> bool" where
  "is_SetMainAI (CallSetMainAI p) = True"
| "is_SetMainAI c = False"

definition episodes :: "('id, 'st, 'act, 'i) call list \<Rightarrow> nat" where
  "episodes cs = length (filter is_GameEnd cs)"

text \<open>The agent that \<open>on_act\<close> hands tick \<open>t\<close> to: the test of line 181.\<close>

datatype target = Backup | Main

definition delegate :: "('id, 'st, 'i) MixedAI \<Rightarrow> Tick \<Rightarrow> target" where
  "delegate m t = (if backup_ai m \<noteq> None \<and> t < backup_ai_tick_thres m then Backup else Main)"

text \<open>The bound of the draw in \<open>GameEnd\<close>: \<open>int(_latest_start + 0.5)\<close>.\<close>

definition thres_bound :: "('id, 'st, 'i) MixedAI \<Rightarrow> int" where
  "thres_bound m = float_to_int (real_of_int (latest_start m) + 0.5)"

text \<open>
  An owned agent behind a pointer, and a \<open>MixedAI\<close> with its owned agents, report the
  identity \<open>X\<close> and point to the state \<open>Y\<close>; an empty pointer has nothing to report.
\<close>

definition agent_bound :: "'id \<Rightarrow> 'st \<Rightarrow> ('id, 'st, 'i) agent option \<Rightarrow> bool" where
  "agent_bound X Y p = (case p of None \<Rightarrow> True | Some a \<Rightarrow> ai_id a = X \<and> s_ptr a = Some Y)"

definition all_bound :: "'id \<Rightarrow> 'st \<Rightarrow> ('id, 'st, 'i) MixedAI \<Rightarrow> bool" where
  "all_bound X Y m =
     (ai_id m = X \<and> s_ptr m = Some Y \<and> agent_bound X Y (backup_ai m) \<and> agent_bound X Y (main_ai m))"

text \<open>The class that the value of the key \<open>backup\<close> selects: the tests of lines 98-105.\<close>

definition backup_variant :: "string \<Rightarrow> variant option" where
  "backup_variant v =
     (if v = ''AI_SIMPLE'' \<or> v = ''ai_simple'' then Some SimpleAI
      else if v = ''AI_HIT_AND_RUN'' \<or> v = ''ai_hit_and_run'' then Some HitAndRunAI
      else None)"

definition returns :: "error + 'a \<Rightarrow> bool" where
  "returns r = (case r of Inl err \<Rightarrow> False | Inr x \<Rightarrow> True)"

text \<open>
  The start after \<open>k\<close> games: line 132 applied \<open>k\<close> times to the start \<open>S\<close>, with the
  decay \<open>D\<close>.
\<close>

fun start_after :: "float \<Rightarrow> int \<Rightarrow> nat \<Rightarrow> error + int" where
  "start_after D S 0 = Inr S"
| "start_after D S (Suc k) =
     (case start_after D S k of Inl err \<Rightarrow> Inl err | Inr L \<Rightarrow> decay_step D L)"

subsection \<open>TrainedAI: the history of feature vectors\<close>

text \<open>
  Modelled from the spec: the class \<open>CircularQueue\<close>, of a header that is not among the
  sources, and \<open>TrainedAI::extract\<close>, which ai.h only declares (line 49). The spec: the
  history is a fixed-capacity circular sequence of feature vectors, its capacity the
  configured frame count; the newest vector overwrites the oldest once the sequence is
  full; \<open>extract\<close> computes the current feature vector, pushes it (evicting the oldest
  entry if the history is full), then copies the full window, oldest to newest, into
  the payload. The queue is an array of \<open>C\<close> slots, the index of the slot written next,
  and the number of slots in use; a queue without slots stores nothing.
\<close>

type_synonym FeatureVector = "float list"

record CircularQueue =
  q_v :: "FeatureVector list"
  q_tail :: nat
  q_sz :: nat

definition Push :: "FeatureVector \<Rightarrow> CircularQueue \<Rightarrow> CircularQueue" where
  "Push x q =
     (if length (q_v q) = 0 then q
      else q\<lparr>q_v := (q_v q)[q_tail q := x],
             q_tail := (q_tail q + 1) mod length (q_v q),
             q_sz := (if q_sz q = length (q_v q) then q_sz q else q_sz q + 1)\<rparr>)"

text \<open>The window: the slots in use, from the oldest; the oldest is \<open>q_sz\<close> slots behind \<open>q_tail\<close>.\<close>

definition window :: "CircularQueue \<Rightarrow> FeatureVector list" where
  "window q = map (\<lambda>i. q_v q ! ((q_tail q + length (q_v q) - q_sz q + i) mod length (q_v q))) [0..<q_sz q]"

text \<open>
  Lines 33-36, the constructor of \<open>TrainedAI\<close>: a queue of \<open>opt.num_frames_in_state\<close>
  slots, each slot cleared. The model has no queue of a negative capacity.
\<close>

record TrainedAI =
  respect_fow :: bool
  recent_states :: CircularQueue

definition TrainedAI_new :: "AIOptions \<Rightarrow> error + TrainedAI" where
  "TrainedAI_new opt =
     (if num_frames_in_state opt < 0 then Inl InvalidArgument
      else Inr \<lparr>respect_fow = fow opt,
                recent_states = \<lparr>q_v = replicate (nat (num_frames_in_state opt)) [], q_tail = 0, q_sz = 0\<rparr>\<rparr>)"

text \<open>
  \<open>extract\<close>, with the feature vector that \<open>compute_state\<close> gives for the current state
  as an argument: the payload and the agent afterwards (\<open>extract\<close> itself is a
  command word of Isabelle). \<open>extracts\<close> is a sequence of calls.
\<close>

definition TrainedAI_extract :: "FeatureVector \<Rightarrow> TrainedAI \<Rightarrow> FeatureVector list \<times> TrainedAI" where
  "TrainedAI_extract x ai = (let q = Push x (recent_states ai) in (window q, ai\<lparr>recent_states := q\<rparr>))"

fun extracts :: "FeatureVector list \<Rightarrow> TrainedAI \<Rightarrow> TrainedAI" where
  "extracts [] ai = ai"
| "extracts (x # xs) ai = extracts xs (snd (TrainedAI_extract x ai))"

text \<open>
  After the pushes \<open>xs\<close> on a new queue of \<open>C > 0\<close> slots: the slot \<open>j mod C\<close> holds the
  \<open>j\<close>-th vector, for the last \<open>C\<close> indices \<open>j\<close>.
\<close>

definition ring :: "nat \<Rightarrow> FeatureVector list \<Rightarrow> CircularQueue \<Rightarrow> bool" where
  "ring C xs q \<longleftrightarrow>
     length (q_v q) = C \<and> q_tail q = length xs mod C \<and> q_sz q = min (length xs) C
     \<and> (\<forall>j < length xs. length xs - j \<le> C \<longrightarrow> q_v q ! (j mod C) = xs ! j)"

subsection \<open>A concrete environment\<close>

text \<open>
  Agents whose derived state counts the calls they have served, used to run the
  definitions on concrete inputs.
\<close>

definition counting :: "(nat, string, nat, nat) env" where
  "counting =
     \<lparr>init_id = 0,
      init_impl = (\<lambda>v. 0),
      sub_Act = (\<lambda>a t x done. (variant a = SimpleAI, Suc x, Suc (impl a))),
      sub_GameEnd = (\<lambda>a t. (even (impl a), Suc (impl a))),
      sub_on_set_id = impl,
      sub_on_set_state = impl,
      mt19937 = (\<lambda>seed n. seed + 7 * n)\<rparr>"

definition trained :: "(nat, string, nat) agent" where
  "trained = \<lparr>ai_id = 9, s_ptr = None, variant = TrainedAI, impl = 0\<rparr>"

text \<open>A bound \<open>MixedAI\<close> with both agents, start 10 and decay one half.\<close>

definition sample :: "(nat, string, nat) MixedAI" where
  "sample =
     \<lparr>ai_id = 4, s_ptr = Some ''game'',
      backup_ai = Some \<lparr>ai_id = 4, s_ptr = Some ''game'', variant = SimpleAI, impl = 0\<rparr>,
      main_ai = Some \<lparr>ai_id = 4, s_ptr = Some ''game'', variant = TrainedAI, impl = 0\<rparr>,
      backup_ai_tick_thres = 0, rng = (\<lambda>n. 3 + 7 * n), latest_start = 10,
      latest_start_decay = Finite (1 / 2), cout = []\<rparr>"


section \<open>Properties\<close>

lemma float_to_int_of_int [simp]: "float_to_int (real_of_int n) = n"
  by (simp add: float_to_int_def)

lemma float_to_int_add_half: "0 \<le> n \<Longrightarrow> float_to_int (real_of_int n + 0.5) = n"
  unfolding float_to_int_def by (auto simp: floor_eq_iff)

lemma to_Tick_id: "0 \<le> u \<Longrightarrow> u < 2 ^ 31 \<Longrightarrow> to_Tick u = u"
  unfolding to_Tick_def by simp

text \<open>Single precision: evaluation on numerals, and the error of rounding.\<close>

lemma pow2_pos [simp]: "0 < pow2 k"
  by (simp add: pow2_def)

lemma pow2_add: "pow2 (a + b) = pow2 a * pow2 b"
proof -
  have "pow2 k = 2 powr (of_int k)" for k
    by (simp add: pow2_def powr_realpow [symmetric] powr_minus divide_inverse)
  then show ?thesis by (simp add: powr_add)
qed

lemma pow2_Suc: "pow2 (k + 1) = 2 * pow2 k"
  using pow2_add [of k 1] by (simp add: pow2_def)

lemma bits_bounds: "0 < n \<Longrightarrow> 2 ^ (bits n - 1) \<le> n \<and> n < 2 ^ bits n"
proof (induction n rule: bits.induct)
  case (1 n)
  show ?case
  proof (cases "n div 2 = 0")
    case True
    with 1(2) have "n = 1" by (simp add: div_eq_0_iff) 
    then show ?thesis by (simp add: bits.simps)
  next
    case False
    then have p: "0 < n div 2" by simp
    with 1 have ih: "2 ^ (bits (n div 2) - 1) \<le> n div 2 \<and> n div 2 < 2 ^ bits (n div 2)" by simp
    have b: "bits n = Suc (bits (n div 2))" using 1(2) by (subst bits.simps) simp
    have bp: "0 < bits (n div 2)" using p by (subst bits.simps) simp
    from ih have "2 * 2 ^ (bits (n div 2) - 1) \<le> n" by linarith
    moreover have "2 * 2 ^ (bits (n div 2) - 1) = (2::nat) ^ bits (n div 2)"
      using bp by (cases "bits (n div 2)") simp_all
    moreover from ih have "n < 2 * 2 ^ bits (n div 2)" by linarith
    ultimately show ?thesis by (simp add: b)
  qed
qed


lemma bits_0 [simp]: "bits 0 = 0"
  by (simp add: bits.simps)

lemma bits_1 [simp]: "bits (Suc 0) = Suc 0"
  by (simp add: bits.simps)

lemma bits_numeral [simp]:
  "bits (numeral Num.One) = 1"
  "bits (numeral (Num.Bit0 k)) = Suc (bits (numeral k))"
  "bits (numeral (Num.Bit1 k)) = Suc (bits (numeral k))"
proof -
  show "bits (numeral Num.One) = 1" by (simp add: bits.simps)
  have "numeral (Num.Bit0 k) div 2 = (numeral k :: nat)" by simp
  then show "bits (numeral (Num.Bit0 k)) = Suc (bits (numeral k))"
    by (subst bits.simps) simp
  have "numeral (Num.Bit1 k) div 2 = (numeral k :: nat)" by simp
  then show "bits (numeral (Num.Bit1 k)) = Suc (bits (numeral k))"
    by (subst bits.simps) simp
qed

lemmas fl_evals = fl_def exponent_def round_even_def pow2_def

lemma exponent_bounds:
  assumes "x \<noteq> 0"
  shows "pow2 (exponent x) \<le> \<bar>x\<bar> \<and> \<bar>x\<bar> < pow2 (exponent x + 1)"
proof (cases "1 \<le> \<bar>x\<bar>")
  case True
  define n where "n = nat \<lfloor>\<bar>x\<bar>\<rfloor>"
  have n: "0 < n" using True by (simp add: n_def)
  have e: "exponent x = int (bits n) - 1" using True by (simp add: exponent_def n_def)
  from bits_bounds [OF n] have b: "2 ^ (bits n - 1) \<le> n" "n < 2 ^ bits n" by simp_all
  have bp: "0 < bits n" using n by (subst bits.simps) simp
  have lo: "real n \<le> \<bar>x\<bar>" using True by (simp add: n_def)
  have hi: "\<bar>x\<bar> < real n + 1" using True by (simp add: n_def)
  have "pow2 (exponent x) = 2 ^ (bits n - 1)"
    using bp by (simp add: e pow2_def nat_diff_distrib')
  also have "\<dots> \<le> real n" using b(1) by (metis of_nat_le_iff of_nat_numeral of_nat_power)
  finally have 1: "pow2 (exponent x) \<le> \<bar>x\<bar>" using lo by simp
  have "real n + 1 \<le> 2 ^ bits n"
    using b(2) by (metis Suc_leI of_nat_Suc of_nat_le_iff of_nat_numeral of_nat_power add.commute)
  moreover have "pow2 (exponent x + 1) = 2 ^ bits n" by (simp add: e pow2_def)
  ultimately have 2: "\<bar>x\<bar> < pow2 (exponent x + 1)" using hi by simp
  from 1 2 show ?thesis ..
next
  case False
  then have lt: "\<bar>x\<bar> < 1" by simp
  have pos: "0 < \<bar>x\<bar>" using assms by simp
  define c where "c = \<lceil>1 / \<bar>x\<bar>\<rceil>"
  define n where "n = nat (c - 1)"
  have inv: "1 < 1 / \<bar>x\<bar>" using lt pos by simp
  then have c2: "2 \<le> c" unfolding c_def by linarith
  then have n: "0 < n" by (simp add: n_def)
  have e: "exponent x = - int (bits n)" using False by (simp add: exponent_def n_def c_def)
  from bits_bounds [OF n] have b: "2 ^ (bits n - 1) \<le> n" "n < 2 ^ bits n" by simp_all
  have bp: "0 < bits n" using n by (subst bits.simps) simp
  have rn: "real n = of_int c - 1" using c2 by (simp add: n_def)
  have cl: "of_int c - 1 < 1 / \<bar>x\<bar>" unfolding c_def by linarith
  have cu: "1 / \<bar>x\<bar> \<le> of_int c" unfolding c_def by linarith
  have "real n + 1 \<le> 2 ^ bits n"
    using b(2) by (metis Suc_leI of_nat_Suc of_nat_le_iff of_nat_numeral of_nat_power add.commute)
  with rn cu have "1 / \<bar>x\<bar> \<le> 2 ^ bits n" by linarith
  then have "1 \<le> 2 ^ bits n * \<bar>x\<bar>" using pos by (simp add: divide_le_eq)
  then have 1: "1 / 2 ^ bits n \<le> \<bar>x\<bar>" by (simp add: divide_le_eq mult.commute)
  have "(2::real) ^ (bits n - 1) \<le> real n"
    using b(1) by (metis of_nat_le_iff of_nat_numeral of_nat_power)
  with rn cl have "2 ^ (bits n - 1) < 1 / \<bar>x\<bar>" by linarith
  then have "2 ^ (bits n - 1) * \<bar>x\<bar> < 1" using pos by (simp add: less_divide_eq)
  then have 2: "\<bar>x\<bar> < 1 / 2 ^ (bits n - 1)" by (simp add: less_divide_eq mult.commute)
  have p1: "pow2 (exponent x) = 1 / 2 ^ bits n" using bp by (simp add: e pow2_def)
  have p2: "pow2 (exponent x + 1) = 1 / 2 ^ (bits n - 1)"
  proof (cases "bits n = 1")
    case True
    then show ?thesis by (simp add: e pow2_def)
  next
    case False
    with bp have "1 < bits n" by simp
    then have "nat (int (bits n) - 1) = bits n - 1" "\<not> 0 \<le> - int (bits n) + 1" by simp_all
    then show ?thesis by (simp add: e pow2_def)
  qed
  from 1 2 p1 p2 show ?thesis by simp
qed

lemma round_even_error: "\<bar>of_int (round_even y) - y\<bar> \<le> 1 / 2"
  unfolding round_even_def by (auto simp: abs_if) linarith+

lemma round_even_nonneg: "0 \<le> y \<Longrightarrow> 0 \<le> round_even y"
  unfolding round_even_def by auto

lemma round_even_of_int [simp]: "round_even (of_int n) = n"
  by (simp add: round_even_def)

lemma fl_zero [simp]: "fl 0 = 0"
  by (simp add: fl_def)

lemma fl_nonneg: "0 \<le> x \<Longrightarrow> 0 \<le> fl x"
  by (simp add: fl_def round_even_nonneg less_imp_le)

lemma fl_error: "\<bar>fl x - x\<bar> \<le> \<bar>x\<bar> / 2 ^ 24"
proof (cases "x = 0")
  case True
  then show ?thesis by simp
next
  case False
  define q where "q = pow2 (exponent x - 23)"
  have q: "0 < q" by (simp add: q_def)
  have "fl x = of_int (round_even (x / q)) * q" using False by (simp add: fl_def q_def)
  then have "fl x - x = (of_int (round_even (x / q)) - x / q) * q"
    using q by (simp add: field_simps)
  then have "\<bar>fl x - x\<bar> = \<bar>of_int (round_even (x / q)) - x / q\<bar> * q"
    using q by (simp add: abs_mult)
  also have "\<dots> \<le> (1 / 2) * q"
    using round_even_error [of "x / q"] q by (intro mult_right_mono) simp_all
  also have "\<dots> = pow2 (exponent x) / 2 ^ 24"
  proof -
    have "pow2 (exponent x) = pow2 (exponent x - 23) * pow2 23"
      using pow2_add [of "exponent x - 23" 23] by simp
    then show ?thesis by (simp add: q_def pow2_def)
  qed
  also have "\<dots> \<le> \<bar>x\<bar> / 2 ^ 24"
    using exponent_bounds [OF False] by (simp add: divide_right_mono)
  finally show ?thesis .
qed

lemma GameEnd_ok:
  assumes "main_ai m = Some a"
    and "decay_step (latest_start_decay m) (latest_start m) = Inr x"
    and "0 \<le> x" and "x < 2 ^ 31 - 1"
  shows "GameEnd e t m =
     Inr (fst (sub_GameEnd e a t),
          m\<lparr>main_ai := Some (a\<lparr>impl := snd (sub_GameEnd e a t)\<rparr>),
            latest_start := x,
            backup_ai_tick_thres := int (rng m 0 mod 2 ^ 32) mod (x + 1),
            rng := (\<lambda>n. rng m (Suc n))\<rparr>)"
proof -
  have x: "0 \<le> x" "x < 2 ^ 31 - 1" using assms by simp_all
  have h: "float_to_int (real_of_int x + 0.5) = x" using x by (intro float_to_int_add_half)
  have r2: "in_int_range (x + 1)" using x by (simp add: in_int_range_def)
  have u: "to_unsigned (x + 1) = x + 1" using x by (simp add: to_unsigned_def)
  have "int (rng m 0 mod 2 ^ 32) mod (x + 1) < x + 1"
    using x by (intro pos_mod_bound) linarith
  moreover have "0 \<le> int (rng m 0 mod 2 ^ 32) mod (x + 1)"
    using x by (intro pos_mod_sign) linarith
  ultimately have tk: "to_Tick (int (rng m 0 mod 2 ^ 32) mod (x + 1)) = int (rng m 0 mod 2 ^ 32) mod (x + 1)"
    using x by (intro to_Tick_id) linarith+
  show ?thesis
    using assms(1,2) r2 u tk x
    by (simp add: GameEnd_def Let_def rng_draw_def split_beta h[simplified])
qed

text \<open>What a returning GameEnd has done, whatever the state.\<close>

lemma GameEnd_Inr:
  assumes "GameEnd e t m = Inr (res, m')"
  shows "\<exists>a. main_ai m = Some a \<and> res = fst (sub_GameEnd e a t)
           \<and> main_ai m' = Some (a\<lparr>impl := snd (sub_GameEnd e a t)\<rparr>)
           \<and> backup_ai m' = backup_ai m
           \<and> ai_id m' = ai_id m \<and> s_ptr m' = s_ptr m \<and> cout m' = cout m
           \<and> latest_start_decay m' = latest_start_decay m
           \<and> decay_step (latest_start_decay m) (latest_start m) = Inr (latest_start m')
           \<and> rng m' = (\<lambda>n. rng m (Suc n))
           \<and> backup_ai_tick_thres m' =
                to_Tick (int (rng m 0 mod 2 ^ 32)
                  mod to_unsigned (float_to_int (real_of_int (latest_start m') + 0.5) + 1))"
  using assms
  by (auto simp: GameEnd_def Let_def rng_draw_def split_beta
      split: option.splits if_splits sum.splits)

lemma GameEnd_backup_irrelevant:
  "map_sum id fst (GameEnd e t (m\<lparr>backup_ai := b\<rparr>)) = map_sum id fst (GameEnd e t m)"
  by (auto simp: GameEnd_def Let_def rng_draw_def split_beta
      split: option.splits if_splits sum.splits)

lemma returns_simps [simp]: "returns (Inr x)" "\<not> returns (Inl err)"
  by (simp_all add: returns_def)

lemma returns_iff: "returns r \<longleftrightarrow> (\<exists>x. r = Inr x)"
  by (cases r) simp_all

text \<open>The constructor's loop.\<close>

lemma ctor_loop_frame:
  "ctor_loop e kvs m = Inr m' \<Longrightarrow>
     ai_id m' = ai_id m \<and> s_ptr m' = s_ptr m \<and> main_ai m' = main_ai m
     \<and> backup_ai_tick_thres m' = backup_ai_tick_thres m \<and> rng m' = rng m"
  by (induction e kvs m rule: ctor_loop.induct) (auto split: if_splits sum.splits)

lemma ctor_loop_cout:
  "ctor_loop e kvs m = Inr m' \<Longrightarrow>
     cout m' = cout m @ map (\<lambda>kv. unrecognized (fst kv) (snd kv))
       (filter (\<lambda>kv. fst kv \<noteq> ''start'' \<and> fst kv \<noteq> ''decay'' \<and> fst kv \<noteq> ''backup'') kvs)"
  by (induction e kvs m rule: ctor_loop.induct) (auto split: if_splits sum.splits)

lemma ctor_loop_no_backup:
  "ctor_loop e kvs m = Inr m' \<Longrightarrow>
   \<forall>kv \<in> set kvs. fst kv = ''backup'' \<longrightarrow> backup_variant (snd kv) = None \<Longrightarrow>
     backup_ai m' = backup_ai m"
  by (induction e kvs m rule: ctor_loop.induct)
     (auto simp: backup_variant_def split: if_splits sum.splits)

lemma ctor_loop_backup_cases:
  "ctor_loop e kvs m = Inr m' \<Longrightarrow>
     backup_ai m' = backup_ai m \<or> backup_ai m' = Some (new_agent e SimpleAI)
     \<or> backup_ai m' = Some (new_agent e HitAndRunAI)"
  by (induction e kvs m rule: ctor_loop.induct) (auto split: if_splits sum.splits)

lemma ctor_loop_returns:
  "\<forall>kv \<in> set kvs. (fst kv = ''start'' \<longrightarrow> returns (stoi (snd kv)))
       \<and> (fst kv = ''decay'' \<longrightarrow> returns (stof (snd kv))) \<Longrightarrow>
     returns (ctor_loop e kvs m)"
proof (induction kvs arbitrary: m)
  case Nil
  show ?case by simp
next
  case (Cons kv kvs)
  then have rest: "\<And>m'. returns (ctor_loop e kvs m')" by simp
  show ?case
  proof (cases "fst kv = ''start''")
    case True
    with Cons.prems obtain n where "stoi (snd kv) = Inr n" by (auto simp: returns_iff)
    with True rest show ?thesis by simp
  next
    case False
    show ?thesis
    proof (cases "fst kv = ''decay''")
      case True
      with Cons.prems obtain x where "stof (snd kv) = Inr x" by (auto simp: returns_iff)
      with True \<open>fst kv \<noteq> ''start''\<close> rest show ?thesis by simp
    next
      case False
      with \<open>fst kv \<noteq> ''start''\<close> rest show ?thesis by simp
    qed
  qed
qed

lemma bind_backup_frame:
  "main_ai (bind_backup e m) = main_ai m \<and> ai_id (bind_backup e m) = ai_id m
   \<and> s_ptr (bind_backup e m) = s_ptr m
   \<and> backup_ai_tick_thres (bind_backup e m) = backup_ai_tick_thres m
   \<and> latest_start (bind_backup e m) = latest_start m
   \<and> latest_start_decay (bind_backup e m) = latest_start_decay m
   \<and> cout (bind_backup e m) = cout m
   \<and> (backup_ai (bind_backup e m) = None \<longleftrightarrow> backup_ai m = None)"
  by (simp add: bind_backup_def Let_def split: option.splits)

lemma variant_SetId [simp]: "variant (SetId e x a) = variant a"
  by (simp add: SetId_def Let_def)

lemma variant_SetState [simp]: "variant (SetState e y a) = variant a"
  by (simp add: SetState_def Let_def)

lemma ai_id_SetId [simp]: "ai_id (SetId e x a) = x"
  by (simp add: SetId_def Let_def)

lemma s_ptr_SetId [simp]: "s_ptr (SetId e x a) = s_ptr a"
  by (simp add: SetId_def Let_def)

lemma ai_id_SetState [simp]: "ai_id (SetState e y a) = ai_id a"
  by (simp add: SetState_def Let_def)

lemma s_ptr_SetState [simp]: "s_ptr (SetState e y a) = Some y"
  by (simp add: SetState_def Let_def)

lemma bind_backup_variant:
  "backup_ai m = Some b \<Longrightarrow> \<exists>b'. backup_ai (bind_backup e m) = Some b' \<and> variant b' = variant b"
  by (simp add: bind_backup_def Let_def split: option.splits)

lemma MixedAI_new_frame:
  assumes "MixedAI_new e now opt = Inr m"
  shows "main_ai m = None" "backup_ai_tick_thres m = 0" "ai_id m = init_id e"
    "s_ptr m = None" "rng m = mt19937 e now"
proof -
  have "main_ai m = None \<and> backup_ai_tick_thres m = 0 \<and> ai_id m = init_id e
      \<and> s_ptr m = None \<and> rng m = mt19937 e now"
  proof (cases "args opt = []")
    case True
    with assms show ?thesis by (auto simp: MixedAI_new_def fresh_def)
  next
    case False
    with assms obtain m1 where l: "ctor_loop e (parse (args opt)) (fresh e) = Inr m1"
      and m: "m = (bind_backup e m1)\<lparr>rng := mt19937 e now\<rparr>"
      by (auto simp: MixedAI_new_def split: sum.splits)
    from ctor_loop_frame [OF l] show ?thesis
      by (simp add: m bind_backup_frame) (simp add: fresh_def)
  qed
  then show "main_ai m = None" "backup_ai_tick_thres m = 0" "ai_id m = init_id e"
    "s_ptr m = None" "rng m = mt19937 e now" by simp_all
qed

lemma MixedAI_new_no_backup:
  assumes "MixedAI_new e now opt = Inr m"
    and "\<forall>kv \<in> set (parse (args opt)). fst kv = ''backup'' \<longrightarrow> backup_variant (snd kv) = None"
  shows "backup_ai m = None"
proof (cases "args opt = []")
  case True
  with assms show ?thesis by (auto simp: MixedAI_new_def fresh_def)
next
  case False
  with assms obtain m1 where l: "ctor_loop e (parse (args opt)) (fresh e) = Inr m1"
    and m: "m = (bind_backup e m1)\<lparr>rng := mt19937 e now\<rparr>"
    by (auto simp: MixedAI_new_def split: sum.splits)
  from ctor_loop_no_backup [OF l assms(2)] have "backup_ai m1 = None" by (simp add: fresh_def)
  then show ?thesis by (simp add: m bind_backup_frame)
qed

lemma MixedAI_new_backup_variant:
  assumes "MixedAI_new e now opt = Inr m" and "backup_ai m = Some b"
  shows "variant b = SimpleAI \<or> variant b = HitAndRunAI"
proof (cases "args opt = []")
  case True
  with assms show ?thesis by (auto simp: MixedAI_new_def fresh_def)
next
  case False
  with assms obtain m1 where l: "ctor_loop e (parse (args opt)) (fresh e) = Inr m1"
    and m: "m = (bind_backup e m1)\<lparr>rng := mt19937 e now\<rparr>"
    by (auto simp: MixedAI_new_def split: sum.splits)
  from assms(2) m obtain b1 where b1: "backup_ai m1 = Some b1"
    using bind_backup_frame [of e m1] by (cases "backup_ai m1") auto
  from bind_backup_variant [OF b1, of e] assms(2) m have v: "variant b = variant b1" by auto
  from ctor_loop_backup_cases [OF l] b1
  have "b1 = new_agent e SimpleAI \<or> b1 = new_agent e HitAndRunAI" by (auto simp: fresh_def)
  with v show ?thesis by (auto simp: new_agent_def)
qed

text \<open>What a call leaves unchanged.\<close>

lemma on_act_frame:
  assumes "on_act e t a done m = Inr (r, a', m')"
  shows "backup_ai_tick_thres m' = backup_ai_tick_thres m"
    "latest_start m' = latest_start m" "latest_start_decay m' = latest_start_decay m"
    "ai_id m' = ai_id m" "s_ptr m' = s_ptr m"
    "backup_ai m' = None \<longleftrightarrow> backup_ai m = None"
    "main_ai m' = None \<longleftrightarrow> main_ai m = None"
  using assms
  by (auto simp: on_act_def ptr_Act_def Let_def split_beta split: if_splits sum.splits option.splits)

lemma on_set_id_frame:
  "backup_ai_tick_thres (on_set_id e m) = backup_ai_tick_thres m"
  "latest_start (on_set_id e m) = latest_start m"
  "latest_start_decay (on_set_id e m) = latest_start_decay m"
  "ai_id (on_set_id e m) = ai_id m" "s_ptr (on_set_id e m) = s_ptr m"
  "backup_ai (on_set_id e m) = None \<longleftrightarrow> backup_ai m = None"
  "main_ai (on_set_id e m) = None \<longleftrightarrow> main_ai m = None"
  by (simp_all add: on_set_id_def Let_def)

lemma on_set_state_frame:
  assumes "on_set_state e m = Inr m'"
  shows "backup_ai_tick_thres m' = backup_ai_tick_thres m"
    "latest_start m' = latest_start m" "latest_start_decay m' = latest_start_decay m"
    "ai_id m' = ai_id m" "s_ptr m' = s_ptr m"
    "backup_ai m' = None \<longleftrightarrow> backup_ai m = None"
    "main_ai m' = None \<longleftrightarrow> main_ai m = None"
  using assms by (auto simp: on_set_state_def split: if_splits option.splits)

lemma SetMainAI_frame:
  assumes "SetMainAI e p m = Inr m'"
  shows "backup_ai_tick_thres m' = backup_ai_tick_thres m"
    "latest_start m' = latest_start m" "latest_start_decay m' = latest_start_decay m"
    "ai_id m' = ai_id m" "s_ptr m' = s_ptr m"
    "backup_ai m' = backup_ai m"
  using assms by (auto simp: SetMainAI_def Let_def split: option.splits)

lemma GameEnd_frame:
  assumes "GameEnd e t m = Inr (res, m')"
  shows "backup_ai m' = backup_ai m" "ai_id m' = ai_id m" "s_ptr m' = s_ptr m"
    "latest_start_decay m' = latest_start_decay m" "cout m' = cout m"
    "decay_step (latest_start_decay m) (latest_start m) = Inr (latest_start m')"
    "main_ai m' \<noteq> None" "main_ai m \<noteq> None"
  using GameEnd_Inr [OF assms] by blast+

lemma map_sum_snd_Inr: "map_sum id snd x = Inr m' \<Longrightarrow> \<exists>r. x = Inr (r, m')"
proof (cases x)
  case (Inl err)
  assume "map_sum id snd x = Inr m'"
  with Inl show ?thesis by simp
next
  case (Inr p)
  assume "map_sum id snd x = Inr m'"
  with Inr have "snd p = m'" by simp
  then have "p = (fst p, m')" by (cases p) simp
  with Inr show ?thesis by blast
qed

lemma map_sum_snd_snd_Inr:
  "map_sum id (\<lambda>r. snd (snd r)) x = Inr m' \<Longrightarrow> \<exists>r a. x = Inr (r, a, m')"
proof (cases x)
  case (Inl err)
  assume "map_sum id (\<lambda>r. snd (snd r)) x = Inr m'"
  with Inl show ?thesis by simp
next
  case (Inr p)
  assume "map_sum id (\<lambda>r. snd (snd r)) x = Inr m'"
  with Inr have "snd (snd p) = m'" by simp
  then have "p = (fst p, fst (snd p), m')" by (cases p) auto
  with Inr show ?thesis by blast
qed

lemma step_backup_present:
  assumes "step e c m = Inr m'"
  shows "backup_ai m' = None \<longleftrightarrow> backup_ai m = None"
proof (cases c)
  case (CallAct t a d)
  with assms obtain r a' where "on_act e t a d m = Inr (r, a', m')"
    using map_sum_snd_snd_Inr [of "on_act e t a d m" m'] by auto
  then show ?thesis by (rule on_act_frame(6))
next
  case (CallGameEnd t)
  with assms obtain r where "GameEnd e t m = Inr (r, m')"
    using map_sum_snd_Inr [of "GameEnd e t m" m'] by auto
  from GameEnd_frame(1) [OF this] show ?thesis by simp
next
  case (CallSetId x)
  with assms have "m' = on_set_id e (m\<lparr>ai_id := x\<rparr>)" by (simp add: MixedAI_SetId_def)
  then show ?thesis by (simp add: on_set_id_frame(6))
next
  case (CallSetState y)
  with assms have "on_set_state e (m\<lparr>s_ptr := Some y\<rparr>) = Inr m'"
    by (simp add: MixedAI_SetState_def)
  from on_set_state_frame(6) [OF this] show ?thesis by simp
next
  case (CallSetMainAI p)
  with assms have "SetMainAI e p m = Inr m'" by simp
  from SetMainAI_frame(6) [OF this] show ?thesis by simp
qed

lemma step_thres:
  assumes "\<not> is_GameEnd c" and "step e c m = Inr m'"
  shows "backup_ai_tick_thres m' = backup_ai_tick_thres m"
proof (cases c)
  case (CallAct t a d)
  with assms obtain r a' where "on_act e t a d m = Inr (r, a', m')"
    using map_sum_snd_snd_Inr [of "on_act e t a d m" m'] by auto
  then show ?thesis by (rule on_act_frame(1))
next
  case (CallGameEnd t)
  with assms show ?thesis by simp
next
  case (CallSetId x)
  with assms have "m' = on_set_id e (m\<lparr>ai_id := x\<rparr>)" by (simp add: MixedAI_SetId_def)
  then show ?thesis by (simp add: on_set_id_frame(1))
next
  case (CallSetState y)
  with assms have "on_set_state e (m\<lparr>s_ptr := Some y\<rparr>) = Inr m'"
    by (simp add: MixedAI_SetState_def)
  from on_set_state_frame(1) [OF this] show ?thesis by simp
next
  case (CallSetMainAI p)
  with assms have "SetMainAI e p m = Inr m'" by simp
  from SetMainAI_frame(1) [OF this] show ?thesis by simp
qed

lemma run_backup_present:
  "run e cs m = Inr m' \<Longrightarrow> (backup_ai m' = None \<longleftrightarrow> backup_ai m = None)"
proof (induction cs arbitrary: m)
  case Nil
  then show ?case by simp
next
  case (Cons c cs)
  then obtain m1 where s: "step e c m = Inr m1" and r: "run e cs m1 = Inr m'"
    by (auto split: sum.splits)
  from Cons.IH [OF r] step_backup_present [OF s] show ?case by simp
qed

lemma run_thres:
  "episodes cs = 0 \<Longrightarrow> run e cs m = Inr m' \<Longrightarrow> backup_ai_tick_thres m' = backup_ai_tick_thres m"
proof (induction cs arbitrary: m)
  case Nil
  then show ?case by simp
next
  case (Cons c cs)
  then obtain m1 where s: "step e c m = Inr m1" and r: "run e cs m1 = Inr m'"
    by (auto split: sum.splits)
  from Cons.prems(1) have c: "\<not> is_GameEnd c" and cs: "episodes cs = 0"
    by (auto simp: episodes_def split: if_splits)
  from Cons.IH [OF cs r] step_thres [OF c s] show ?case by simp
qed

lemma run_delegate:
  assumes "episodes cs = 0" "run e cs m = Inr m'"
  shows "delegate m' t = delegate m t"
  using run_thres [OF assms] run_backup_present [OF assms(2)] by (simp add: delegate_def)

text \<open>Reading the example string of the constructor.\<close>

lemmas read_defs = parse_def split_def stoi_def stof_def strip_sign_def isspace_def isdigit_def
  digits_val_def digit_val_def lower_def scale10_def in_int_range_def read_float_def read_dec_def
  read_hex_def mantissa_def exponent_part_def hexdigit_def hex_val_def hex_digits_val_def
  to_float_def

lemmas decay_defs = decay_step_def float_to_int_def in_int_range_def

lemma split_from_no_delim:
  "d \<notin> set xs \<Longrightarrow> split_from (xs @ ys) d cur = split_from ys d (cur @ xs)"
  by (induction xs arbitrary: cur) auto

lemma split_from_field:
  "d \<notin> set xs \<Longrightarrow> split_from xs d cur = (if cur @ xs = [] then [] else [cur @ xs])"
  using split_from_no_delim [of d xs "[]" cur] by simp

lemma split_key_value:
  assumes "CHR ''/'' \<notin> set k" "CHR ''/'' \<notin> set v" "v \<noteq> []"
  shows "split (k @ ''/'' @ v) (CHR ''/'') = [k, v]"
proof -
  have "split (k @ ''/'' @ v) (CHR ''/'') = split_from (''/'' @ v) (CHR ''/'') k"
    using split_from_no_delim [OF assms(1), of "''/'' @ v" "[]"] by (simp add: split_def)
  also have "\<dots> = k # split_from v (CHR ''/'') []" by simp
  also have "\<dots> = [k, v]" using assms(2,3) by (simp add: split_from_field)
  finally show ?thesis .
qed

lemma stoi_10: "stoi ''10'' = Inr 10"
  by (simp add: read_defs)

lemma stof_half: "stof ''0.5'' = Inr (Finite (1 / 2))"
  by (simp add: read_defs fl_evals)

lemma parse_example:
  "parse ''start/10|decay/0.5|backup/ai_simple'' =
     [(''backup'', ''ai_simple''), (''decay'', ''0.5''), (''start'', ''10'')]"
  by (simp add: parse_def split_def)

lemma parse_example_more:
  assumes "CHR ''/'' \<notin> set k" "CHR ''/'' \<notin> set v" "CHR ''|'' \<notin> set k" "CHR ''|'' \<notin> set v"
    and "v \<noteq> []"
  shows "parse (''start/10|decay/0.5|backup/ai_simple|'' @ k @ ''/'' @ v) =
     map_insert (k, v) [(''backup'', ''ai_simple''), (''decay'', ''0.5''), (''start'', ''10'')]"
proof -
  have "CHR ''|'' \<notin> set (k @ ''/'' @ v)" using assms(3,4) by simp
  from split_from_field [OF this, of "[]"]
  have f: "split_from (k @ CHR ''/'' # v) (CHR ''|'') [] = [k @ CHR ''/'' # v]" by simp
  have "split (''start/10|decay/0.5|backup/ai_simple|'' @ k @ ''/'' @ v) (CHR ''|'') =
      [''start/10'', ''decay/0.5'', ''backup/ai_simple'', k @ ''/'' @ v]"
    by (simp add: split_def f)
  moreover have "split ''start/10'' (CHR ''/'') = [''start'', ''10'']"
    "split ''decay/0.5'' (CHR ''/'') = [''decay'', ''0.5'']"
    "split ''backup/ai_simple'' (CHR ''/'') = [''backup'', ''ai_simple'']"
    by (simp_all add: split_def)
  ultimately show ?thesis
    using split_key_value [OF assms(1,2,5)]
    by (simp add: parse_def)
qed

lemma ctor_loop_example:
  "ctor_loop e [(''backup'', ''ai_simple''), (''decay'', ''0.5''), (''start'', ''10'')] m =
     Inr (m\<lparr>backup_ai := Some (new_agent e SimpleAI), latest_start_decay := Finite (1 / 2),
            latest_start := 10\<rparr>)"
  by (simp add: stoi_10 stof_half)

lemma ctor_loop_example_more:
  assumes "k \<noteq> ''start''" "k \<noteq> ''decay''" "k \<noteq> ''backup''"
  shows "ctor_loop e
      (map_insert (k, v) [(''backup'', ''ai_simple''), (''decay'', ''0.5''), (''start'', ''10'')]) m =
     Inr (m\<lparr>backup_ai := Some (new_agent e SimpleAI), latest_start_decay := Finite (1 / 2),
            latest_start := 10, cout := cout m @ [unrecognized k v]\<rparr>)"
  using assms by (simp add: stoi_10 stof_half)

subsection \<open>C5: the constructor on the example string\<close>

text \<open>
  Claim C5. Constructing a \<open>MixedAI\<close> with the arguments
  \<open>start/10|decay/0.5|backup/ai_simple\<close> succeeds with \<open>_latest_start = 10\<close>,
  \<open>_latest_start_decay = 0.5\<close> and a backup agent of class \<open>SimpleAI\<close>, and writes
  nothing. Appending one more field \<open>k/v\<close> whose key is none of \<open>start\<close>,
  \<open>decay\<close>, \<open>backup\<close> (such as \<open>foo/bar\<close>; \<open>k\<close> and \<open>v\<close> without delimiters,
  \<open>v\<close> not empty) still succeeds and yields the same object, except that the line
  \<open>Unrecognized (key, value) = (k,v)\<close> has been written.
\<close>

theorem construction_example:
  "(\<exists>m b. MixedAI_new e now (opt\<lparr>args := ''start/10|decay/0.5|backup/ai_simple''\<rparr>) = Inr m
        \<and> latest_start m = 10 \<and> latest_start_decay m = Finite (1 / 2)
        \<and> backup_ai m = Some b \<and> variant b = SimpleAI \<and> cout m = [])
   \<and> (\<forall>m k v. MixedAI_new e now (opt\<lparr>args := ''start/10|decay/0.5|backup/ai_simple''\<rparr>) = Inr m
          \<and> k \<noteq> ''start'' \<and> k \<noteq> ''decay'' \<and> k \<noteq> ''backup''
          \<and> CHR ''/'' \<notin> set k \<and> CHR ''|'' \<notin> set k
          \<and> CHR ''/'' \<notin> set v \<and> CHR ''|'' \<notin> set v \<and> v \<noteq> []
        \<longrightarrow> MixedAI_new e now
              (opt\<lparr>args := ''start/10|decay/0.5|backup/ai_simple|'' @ k @ ''/'' @ v\<rparr>)
            = Inr (m\<lparr>cout := [unrecognized k v]\<rparr>))"
proof (intro conjI allI impI)
  show "\<exists>m b. MixedAI_new e now (opt\<lparr>args := ''start/10|decay/0.5|backup/ai_simple''\<rparr>) = Inr m
        \<and> latest_start m = 10 \<and> latest_start_decay m = Finite (1 / 2)
        \<and> backup_ai m = Some b \<and> variant b = SimpleAI \<and> cout m = []"
    by (simp add: MixedAI_new_def parse_example stoi_10 stof_half bind_backup_def fresh_def
        new_agent_def Let_def)
next
  fix m k v
  assume h: "MixedAI_new e now (opt\<lparr>args := ''start/10|decay/0.5|backup/ai_simple''\<rparr>) = Inr m
          \<and> k \<noteq> ''start'' \<and> k \<noteq> ''decay'' \<and> k \<noteq> ''backup''
          \<and> CHR ''/'' \<notin> set k \<and> CHR ''|'' \<notin> set k
          \<and> CHR ''/'' \<notin> set v \<and> CHR ''|'' \<notin> set v \<and> v \<noteq> []"
  then have p: "parse (''start/10|decay/0.5|backup/ai_simple|'' @ k @ ''/'' @ v) =
     map_insert (k, v) [(''backup'', ''ai_simple''), (''decay'', ''0.5''), (''start'', ''10'')]"
    by (intro parse_example_more) simp_all
  from h have l: "ctor_loop e
      (map_insert (k, v) [(''backup'', ''ai_simple''), (''decay'', ''0.5''), (''start'', ''10'')])
      (fresh e) =
     Inr ((fresh e)\<lparr>backup_ai := Some (new_agent e SimpleAI), latest_start_decay := Finite (1 / 2),
            latest_start := 10, cout := cout (fresh e) @ [unrecognized k v]\<rparr>)"
    by (intro ctor_loop_example_more) simp_all
  from h have m: "m = (bind_backup e ((fresh e)\<lparr>backup_ai := Some (new_agent e SimpleAI),
      latest_start_decay := Finite (1 / 2), latest_start := 10\<rparr>))\<lparr>rng := mt19937 e now\<rparr>"
    by (simp add: MixedAI_new_def parse_example stoi_10 stof_half)
  define s where "s = ''start/10|decay/0.5|backup/ai_simple|'' @ k @ ''/'' @ v"
  have n: "s \<noteq> []" by (simp add: s_def)
  have p': "parse s =
     map_insert (k, v) [(''backup'', ''ai_simple''), (''decay'', ''0.5''), (''start'', ''10'')]"
    using p by (simp only: s_def)
  have "MixedAI_new e now (opt\<lparr>args := s\<rparr>) =
      (case ctor_loop e (parse s) (fresh e) of
         Inl err \<Rightarrow> Inl err
       | Inr m \<Rightarrow> Inr ((bind_backup e m)\<lparr>rng := mt19937 e now\<rparr>))"
    using n by (simp add: MixedAI_new_def)
  also have "\<dots> =
      Inr ((bind_backup e ((fresh e)\<lparr>backup_ai := Some (new_agent e SimpleAI),
            latest_start_decay := Finite (1 / 2), latest_start := 10,
            cout := cout (fresh e) @ [unrecognized k v]\<rparr>))\<lparr>rng := mt19937 e now\<rparr>)"
    by (simp only: p' l sum.case)
  also have "\<dots> = Inr (m\<lparr>cout := [unrecognized k v]\<rparr>)"
    by (simp add: m bind_backup_def fresh_def Let_def)
  finally show "MixedAI_new e now
              (opt\<lparr>args := ''start/10|decay/0.5|backup/ai_simple|'' @ k @ ''/'' @ v\<rparr>)
            = Inr (m\<lparr>cout := [unrecognized k v]\<rparr>)"
    by (simp only: s_def)
qed

theorem construction_example_witness:
  "MixedAI_new counting 7
      \<lparr>name = ''mixed'', fs = 1, fow = True, num_frames_in_state = 1,
       args = ''start/10|decay/0.5|backup/ai_simple|foo/bar''\<rparr>
   = Inr \<lparr>ai_id = 0, s_ptr = None,
        backup_ai = Some \<lparr>ai_id = 0, s_ptr = None, variant = SimpleAI, impl = 0\<rparr>,
        main_ai = None, backup_ai_tick_thres = 0, rng = mt19937 counting 7,
        latest_start = 10, latest_start_decay = Finite (1 / 2),
        cout = [''Unrecognized (key, value) = (foo,bar)'']\<rparr>"
proof -
  let ?opt = "\<lparr>name = ''mixed'', fs = 1, fow = True, num_frames_in_state = 1, args = ''''\<rparr>"
  have a: "MixedAI_new counting 7 (?opt\<lparr>args := ''start/10|decay/0.5|backup/ai_simple''\<rparr>)
    = Inr \<lparr>ai_id = 0, s_ptr = None,
        backup_ai = Some \<lparr>ai_id = 0, s_ptr = None, variant = SimpleAI, impl = 0\<rparr>,
        main_ai = None, backup_ai_tick_thres = 0, rng = mt19937 counting 7,
        latest_start = 10, latest_start_decay = Finite (1 / 2), cout = []\<rparr>"
    by (simp add: MixedAI_new_def parse_example stoi_10 stof_half bind_backup_def fresh_def
        new_agent_def SetId_def Let_def) (simp add: counting_def)
  from construction_example [of counting 7 ?opt, THEN conjunct2, rule_format,
      of _ "''foo''" "''bar''"] a
  show ?thesis by (simp add: unrecognized_def)
qed

lemma counting_simps [simp]:
  "init_id counting = 0" "init_impl counting v = 0"
  "sub_Act counting a t x d = (variant a = SimpleAI, Suc x, Suc (impl a))"
  "sub_GameEnd counting a t = (even (impl a), Suc (impl a))"
  "sub_on_set_id counting a = impl a" "sub_on_set_state counting a = impl a"
  "mt19937 counting seed n = seed + 7 * n"
  by (simp_all add: counting_def)

text \<open>Acting: where \<open>on_act\<close> sends a tick.\<close>

lemma on_act_Backup:
  assumes "backup_ai m = Some b" "t < backup_ai_tick_thres m"
  shows "on_act e t a dn m =
     Inr (fst (sub_Act e b t a dn), fst (snd (sub_Act e b t a dn)),
          m\<lparr>backup_ai := Some (b\<lparr>impl := snd (snd (sub_Act e b t a dn))\<rparr>)\<rparr>)"
  using assms by (simp add: on_act_def ptr_Act_def Let_def split_beta)

lemma on_act_Main:
  assumes "backup_ai m = None \<or> backup_ai_tick_thres m \<le> t" "main_ai m = Some b"
  shows "on_act e t a dn m =
     Inr (fst (sub_Act e b t a dn), fst (snd (sub_Act e b t a dn)),
          m\<lparr>main_ai := Some (b\<lparr>impl := snd (snd (sub_Act e b t a dn))\<rparr>)\<rparr>)"
  using assms by (auto simp: on_act_def ptr_Act_def Let_def split_beta)

lemma on_act_no_main:
  assumes "backup_ai m = None \<or> backup_ai_tick_thres m \<le> t" "main_ai m = None"
  shows "on_act e t a dn m = Inl NullPointer"
  using assms by (auto simp: on_act_def ptr_Act_def)

lemma delegate_Main_iff:
  "delegate m t = Main \<longleftrightarrow> backup_ai m = None \<or> backup_ai_tick_thres m \<le> t"
  by (auto simp: delegate_def)

lemma delegate_Backup_iff:
  "delegate m t = Backup \<longleftrightarrow> (\<exists>b. backup_ai m = Some b) \<and> t < backup_ai_tick_thres m"
  by (auto simp: delegate_def)

subsection \<open>C3: the rule of delegation\<close>

text \<open>
  Claim C3. At a tick \<open>t\<close>, if the \<open>MixedAI\<close> owns a backup agent and \<open>t\<close> is below
  the threshold, \<open>on_act\<close> calls \<open>Act\<close> of the backup agent and returns its result
  (the main agent is not touched); otherwise, with a main agent installed, it calls
  \<open>Act\<close> of the main agent and returns its result (the backup agent is not touched).
  When no \<open>backup\<close> entry of the arguments names a known class, the constructed object
  has no backup agent, none appears under any sequence of calls, and every \<open>on_act\<close>
  goes to the main agent.
\<close>

theorem on_act_delegates:
  "(backup_ai m = Some b \<and> t < backup_ai_tick_thres m \<longrightarrow>
      delegate m t = Backup \<and>
      on_act e t a dn m =
        Inr (fst (sub_Act e b t a dn), fst (snd (sub_Act e b t a dn)),
             m\<lparr>backup_ai := Some (b\<lparr>impl := snd (snd (sub_Act e b t a dn))\<rparr>)\<rparr>))
   \<and> ((backup_ai m = None \<or> backup_ai_tick_thres m \<le> t) \<and> main_ai m = Some mn \<longrightarrow>
      delegate m t = Main \<and>
      on_act e t a dn m =
        Inr (fst (sub_Act e mn t a dn), fst (snd (sub_Act e mn t a dn)),
             m\<lparr>main_ai := Some (mn\<lparr>impl := snd (snd (sub_Act e mn t a dn))\<rparr>)\<rparr>))
   \<and> (MixedAI_new e now opt = Inr m0
        \<and> (\<forall>kv \<in> set (parse (args opt)). fst kv = ''backup'' \<longrightarrow> backup_variant (snd kv) = None)
        \<and> run e cs m0 = Inr m1 \<and> main_ai m1 = Some mn \<longrightarrow>
      backup_ai m1 = None \<and> delegate m1 t = Main \<and>
      on_act e t a dn m1 =
        Inr (fst (sub_Act e mn t a dn), fst (snd (sub_Act e mn t a dn)),
             m1\<lparr>main_ai := Some (mn\<lparr>impl := snd (snd (sub_Act e mn t a dn))\<rparr>)\<rparr>))"
proof (intro conjI impI)
  assume h: "backup_ai m = Some b \<and> t < backup_ai_tick_thres m"
  then show "delegate m t = Backup" by (simp add: delegate_def)
  from h show "on_act e t a dn m =
        Inr (fst (sub_Act e b t a dn), fst (snd (sub_Act e b t a dn)),
             m\<lparr>backup_ai := Some (b\<lparr>impl := snd (snd (sub_Act e b t a dn))\<rparr>)\<rparr>)"
    by (intro on_act_Backup) simp_all
next
  assume h: "(backup_ai m = None \<or> backup_ai_tick_thres m \<le> t) \<and> main_ai m = Some mn"
  then show "delegate m t = Main" by (simp add: delegate_Main_iff)
  from h show "on_act e t a dn m =
        Inr (fst (sub_Act e mn t a dn), fst (snd (sub_Act e mn t a dn)),
             m\<lparr>main_ai := Some (mn\<lparr>impl := snd (snd (sub_Act e mn t a dn))\<rparr>)\<rparr>)"
    by (intro on_act_Main) simp_all
next
  assume h: "MixedAI_new e now opt = Inr m0
        \<and> (\<forall>kv \<in> set (parse (args opt)). fst kv = ''backup'' \<longrightarrow> backup_variant (snd kv) = None)
        \<and> run e cs m0 = Inr m1 \<and> main_ai m1 = Some mn"
  then have "backup_ai m0 = None" by (intro MixedAI_new_no_backup [of e now opt]) simp_all
  with h show b: "backup_ai m1 = None" using run_backup_present [of e cs m0 m1] by simp
  then show "delegate m1 t = Main" by (simp add: delegate_Main_iff)
  from b h show "on_act e t a dn m1 =
        Inr (fst (sub_Act e mn t a dn), fst (snd (sub_Act e mn t a dn)),
             m1\<lparr>main_ai := Some (mn\<lparr>impl := snd (snd (sub_Act e mn t a dn))\<rparr>)\<rparr>)"
    by (intro on_act_Main) simp_all
qed


theorem on_act_delegates_witness:
  "on_act counting 2 0 False (sample\<lparr>backup_ai_tick_thres := 3\<rparr>) =
     Inr (True, 1, sample\<lparr>backup_ai_tick_thres := 3,
       backup_ai := Some \<lparr>ai_id = 4, s_ptr = Some ''game'', variant = SimpleAI, impl = 1\<rparr>\<rparr>)
   \<and> on_act counting 3 0 False (sample\<lparr>backup_ai_tick_thres := 3\<rparr>) =
     Inr (False, 1, sample\<lparr>backup_ai_tick_thres := 3,
       main_ai := Some \<lparr>ai_id = 4, s_ptr = Some ''game'', variant = TrainedAI, impl = 1\<rparr>\<rparr>)
   \<and> (\<exists>m1. run counting [CallSetMainAI (Some trained), CallGameEnd 90]
          (fresh counting\<lparr>latest_start := 10, latest_start_decay := Finite (1 / 2), rng := mt19937 counting 7\<rparr>)
          = Inr m1
        \<and> backup_ai m1 = None \<and> backup_ai_tick_thres m1 = 1
        \<and> on_act counting 0 0 False m1 =
            Inr (False, 1, m1\<lparr>main_ai :=
              Some \<lparr>ai_id = 0, s_ptr = None, variant = TrainedAI, impl = 2\<rparr>\<rparr>))"
proof (intro conjI)
  let ?m = "sample\<lparr>backup_ai_tick_thres := 3\<rparr>"
  show "on_act counting 2 0 False ?m =
     Inr (True, 1, sample\<lparr>backup_ai_tick_thres := 3,
       backup_ai := Some \<lparr>ai_id = 4, s_ptr = Some ''game'', variant = SimpleAI, impl = 1\<rparr>\<rparr>)"
    using on_act_delegates [of ?m "\<lparr>ai_id = 4, s_ptr = Some ''game'', variant = SimpleAI, impl = 0\<rparr>"
        2 counting 0 False, THEN conjunct1]
    by (simp add: sample_def)
  show "on_act counting 3 0 False ?m =
     Inr (False, 1, sample\<lparr>backup_ai_tick_thres := 3,
       main_ai := Some \<lparr>ai_id = 4, s_ptr = Some ''game'', variant = TrainedAI, impl = 1\<rparr>\<rparr>)"
    using on_act_delegates [of ?m _ 3 counting 0 False
        "\<lparr>ai_id = 4, s_ptr = Some ''game'', variant = TrainedAI, impl = 0\<rparr>",
        THEN conjunct2, THEN conjunct1]
    by (simp add: sample_def)
  let ?opt = "\<lparr>name = ''mixed'', fs = 1, fow = True, num_frames_in_state = 1,
       args = ''backup/lua|start/10|decay/0.5''\<rparr>"
  let ?m0 = "fresh counting\<lparr>latest_start := 10, latest_start_decay := Finite (1 / 2), rng := mt19937 counting 7\<rparr>"
  let ?mn = "\<lparr>ai_id = 0, s_ptr = None, variant = TrainedAI, impl = 1\<rparr>"
  let ?m1 = "?m0\<lparr>main_ai := Some ?mn, latest_start := 5, backup_ai_tick_thres := 1,
      rng := (\<lambda>n. 14 + 7 * n)\<rparr>"
  have p: "parse ''backup/lua|start/10|decay/0.5'' =
      [(''backup'', ''lua''), (''decay'', ''0.5''), (''start'', ''10'')]"
    by (simp add: parse_def split_def)
  have n: "MixedAI_new counting 7 ?opt = Inr ?m0"
    by (simp add: MixedAI_new_def p stoi_10 stof_half bind_backup_def fresh_def)
  have v: "\<forall>kv \<in> set (parse (args ?opt)). fst kv = ''backup'' \<longrightarrow> backup_variant (snd kv) = None"
    by (simp add: p backup_variant_def)
  have r: "run counting [CallSetMainAI (Some trained), CallGameEnd 90] ?m0 = Inr ?m1"
    by (simp add: SetMainAI_def SetId_def Let_def trained_def fresh_def GameEnd_def rng_draw_def
        decay_defs fl_evals to_unsigned_def to_Tick_def)
  from on_act_delegates [where t = 0 and e = counting and a = 0 and dn = False and mn = ?mn
        and now = 7 and opt = ?opt and ?m0.0 = ?m0 and ?m1.0 = ?m1
        and cs = "[CallSetMainAI (Some trained), CallGameEnd 90]",
      THEN conjunct2, THEN conjunct2] n v r
  have "backup_ai ?m1 = None \<and> delegate ?m1 0 = Main \<and>
      on_act counting 0 0 False ?m1 =
        Inr (fst (sub_Act counting ?mn 0 0 False), fst (snd (sub_Act counting ?mn 0 0 False)),
             ?m1\<lparr>main_ai := Some (?mn\<lparr>impl := snd (snd (sub_Act counting ?mn 0 0 False))\<rparr>)\<rparr>)"
    by simp
  then have "on_act counting 0 0 False ?m1 =
            Inr (False, 1, ?m1\<lparr>main_ai :=
              Some \<lparr>ai_id = 0, s_ptr = None, variant = TrainedAI, impl = 2\<rparr>\<rparr>)"
    by simp
  with r show "\<exists>m1. run counting [CallSetMainAI (Some trained), CallGameEnd 90] ?m0 = Inr m1
        \<and> backup_ai m1 = None \<and> backup_ai_tick_thres m1 = 1
        \<and> on_act counting 0 0 False m1 =
            Inr (False, 1, m1\<lparr>main_ai :=
              Some \<lparr>ai_id = 0, s_ptr = None, variant = TrainedAI, impl = 2\<rparr>\<rparr>)"
    by (simp add: fresh_def)
qed

lemma on_act_Main_result:
  assumes "delegate m t = Main" "on_act e t a dn m = Inr (r, a', m')"
  shows "\<exists>mn. main_ai m = Some mn \<and> r = fst (sub_Act e mn t a dn)
           \<and> a' = fst (snd (sub_Act e mn t a dn))
           \<and> m' = m\<lparr>main_ai := Some (mn\<lparr>impl := snd (snd (sub_Act e mn t a dn))\<rparr>)\<rparr>"
proof (cases "main_ai m")
  case None
  with assms(1) have "on_act e t a dn m = Inl NullPointer"
    by (intro on_act_no_main) (simp_all add: delegate_Main_iff)
  with assms(2) show ?thesis by simp
next
  case (Some mn)
  with assms(1) have "on_act e t a dn m =
     Inr (fst (sub_Act e mn t a dn), fst (snd (sub_Act e mn t a dn)),
          m\<lparr>main_ai := Some (mn\<lparr>impl := snd (snd (sub_Act e mn t a dn))\<rparr>)\<rparr>)"
    by (intro on_act_Main) (simp_all add: delegate_Main_iff)
  with assms(2) Some show ?thesis by simp
qed

subsection \<open>C4: no return to the backup agent within a game\<close>

text \<open>
  Claim C4. Within one game, that is over any sequence of calls without a \<open>GameEnd\<close>,
  if \<open>on_act\<close> at tick \<open>t1\<close> goes to the main agent, then \<open>on_act\<close> at any later tick
  \<open>t2\<close> goes to the main agent too: whatever it returns comes from the main agent's
  \<open>Act\<close>, and the backup agent is left as it is.
\<close>

theorem delegation_monotone:
  assumes "episodes cs = 0" and "run e cs m = Inr m'" and "t1 < t2"
    and "delegate m t1 = Main"
  shows "delegate m' t2 = Main
    \<and> (\<forall>r a' m''. on_act e t2 a dn m' = Inr (r, a', m'') \<longrightarrow>
          backup_ai m'' = backup_ai m'
          \<and> (\<exists>mn. main_ai m' = Some mn \<and> r = fst (sub_Act e mn t2 a dn)))"
proof -
  from assms(4) have "backup_ai m = None \<or> backup_ai_tick_thres m \<le> t1"
    by (simp add: delegate_Main_iff)
  with assms(3) have "backup_ai m = None \<or> backup_ai_tick_thres m \<le> t2" by auto
  then have "delegate m t2 = Main" by (simp add: delegate_Main_iff)
  with run_delegate [OF assms(1,2), of t2] have d: "delegate m' t2 = Main" by simp
  have "\<exists>mn. main_ai m' = Some mn \<and> r = fst (sub_Act e mn t2 a dn) \<and> backup_ai m'' = backup_ai m'"
    if "on_act e t2 a dn m' = Inr (r, a', m'')" for r a' m''
    using on_act_Main_result [OF d that] by auto
  with d show ?thesis by blast
qed

theorem delegation_monotone_witness:
  "delegate (sample\<lparr>backup_ai_tick_thres := 3\<rparr>) 2 = Backup
   \<and> delegate (sample\<lparr>backup_ai_tick_thres := 3\<rparr>) 3 = Main
   \<and> (\<exists>m'. run counting [CallAct 3 0 False, CallSetId 5] (sample\<lparr>backup_ai_tick_thres := 3\<rparr>) = Inr m'
         \<and> delegate m' 4 = Main)"
proof -
  let ?m = "sample\<lparr>backup_ai_tick_thres := 3\<rparr>"
  let ?cs = "[CallAct 3 0 False, CallSetId 5] :: (nat, string, nat, nat) call list"
  have e: "episodes ?cs = 0" by (simp add: episodes_def)
  have d: "delegate ?m 3 = Main" "delegate ?m 2 = Backup" by (simp_all add: delegate_def sample_def)
  obtain m' where r: "run counting ?cs ?m = Inr m'"
    by (simp add: on_act_def ptr_Act_def MixedAI_SetId_def sample_def)
  from delegation_monotone [OF e r, of 3 4] d have "delegate m' 4 = Main" by simp
  with r d show ?thesis by blast
qed

text \<open>Before a main agent is installed.\<close>

lemma step_main_None:
  assumes "main_ai m = None" and "\<not> is_SetMainAI c" and "step e c m = Inr m'"
  shows "main_ai m' = None \<and> \<not> is_GameEnd c"
proof (cases c)
  case (CallAct t a d)
  with assms obtain r a' where "on_act e t a d m = Inr (r, a', m')"
    using map_sum_snd_snd_Inr [of "on_act e t a d m" m'] by auto
  from on_act_frame(7) [OF this] assms(1) CallAct show ?thesis by simp
next
  case (CallGameEnd t)
  with assms obtain r where "GameEnd e t m = Inr (r, m')"
    using map_sum_snd_Inr [of "GameEnd e t m" m'] by auto
  from GameEnd_frame(8) [OF this] assms(1) show ?thesis by simp
next
  case (CallSetId x)
  with assms have "m' = on_set_id e (m\<lparr>ai_id := x\<rparr>)" by (simp add: MixedAI_SetId_def)
  with assms(1) CallSetId show ?thesis by (simp add: on_set_id_frame(7))
next
  case (CallSetState y)
  with assms have "on_set_state e (m\<lparr>s_ptr := Some y\<rparr>) = Inr m'"
    by (simp add: MixedAI_SetState_def)
  from on_set_state_frame(7) [OF this] assms(1) CallSetState show ?thesis by simp
next
  case (CallSetMainAI p)
  with assms(2) show ?thesis by simp
qed

lemma run_main_None:
  "main_ai m = None \<Longrightarrow> \<forall>c \<in> set cs. \<not> is_SetMainAI c \<Longrightarrow> run e cs m = Inr m' \<Longrightarrow>
     main_ai m' = None \<and> episodes cs = 0"
proof (induction cs arbitrary: m)
  case Nil
  then show ?case by (simp add: episodes_def)
next
  case (Cons c cs)
  then obtain m1 where s: "step e c m = Inr m1" and r: "run e cs m1 = Inr m'"
    by (auto split: sum.splits)
  from Cons.prems(2) have c: "\<not> is_SetMainAI c" and cs: "\<forall>c \<in> set cs. \<not> is_SetMainAI c"
    by simp_all
  from step_main_None [OF Cons.prems(1) c s] have m1: "main_ai m1 = None" and g: "\<not> is_GameEnd c"
    by simp_all
  from Cons.IH [OF m1 cs r] g show ?case by (simp add: episodes_def)
qed

subsection \<open>C6: acting without a main agent\<close>

text \<open>
  Claim C6. \<open>on_act\<close> at a tick that goes to the main agent while no main agent is
  installed does not return: the call through the empty pointer \<open>_main_ai\<close> is a null
  dereference. This is the state of every \<open>MixedAI\<close> from its construction until
  \<open>SetMainAI\<close> is called: no main agent is installed, the threshold is still 0, and
  \<open>on_act\<close> at every tick from 0 on fails so.
\<close>

theorem act_without_main_fails:
  "(main_ai m = None \<and> delegate m t = Main \<longrightarrow>
      on_act e t a dn m = Inl NullPointer \<and> step e (CallAct t a dn) m = Inl NullPointer)
   \<and> (MixedAI_new e now opt = Inr m0 \<and> (\<forall>c \<in> set cs. \<not> is_SetMainAI c)
        \<and> run e cs m0 = Inr m1 \<and> 0 \<le> t \<longrightarrow>
      main_ai m1 = None \<and> delegate m1 t = Main \<and> on_act e t a dn m1 = Inl NullPointer)"
proof (intro conjI impI)
  assume h: "main_ai m = None \<and> delegate m t = Main"
  then show a: "on_act e t a dn m = Inl NullPointer"
    by (intro on_act_no_main) (simp_all add: delegate_Main_iff)
  then show "step e (CallAct t a dn) m = Inl NullPointer" by simp
next
  assume h: "MixedAI_new e now opt = Inr m0 \<and> (\<forall>c \<in> set cs. \<not> is_SetMainAI c)
        \<and> run e cs m0 = Inr m1 \<and> 0 \<le> t"
  then have n: "MixedAI_new e now opt = Inr m0" and r: "run e cs m0 = Inr m1" by simp_all
  from h run_main_None [OF MixedAI_new_frame(1) [OF n], of cs e m1]
  have m: "main_ai m1 = None" and ep: "episodes cs = 0" by simp_all
  from run_thres [OF ep r] MixedAI_new_frame(2) [OF n] have "backup_ai_tick_thres m1 = 0" by simp
  with h have d: "delegate m1 t = Main" by (simp add: delegate_Main_iff)
  from m show "main_ai m1 = None" .
  from d show "delegate m1 t = Main" .
  from m d show "on_act e t a dn m1 = Inl NullPointer"
    by (intro on_act_no_main) (simp_all add: delegate_Main_iff)
qed

theorem act_without_main_fails_witness:
  "on_act counting 0 0 False (sample\<lparr>main_ai := None\<rparr>) = Inl NullPointer
   \<and> (\<exists>m0 m1. MixedAI_new counting 7
          \<lparr>name = ''mixed'', fs = 1, fow = True, num_frames_in_state = 1,
           args = ''start/10|decay/0.5|backup/ai_simple''\<rparr> = Inr m0
        \<and> run counting [CallSetId 4, CallSetState ''game''] m0 = Inr m1
        \<and> on_act counting 12 0 False m1 = Inl NullPointer)"
proof -
  let ?opt = "\<lparr>name = ''mixed'', fs = 1, fow = True, num_frames_in_state = 1,
           args = ''start/10|decay/0.5|backup/ai_simple''\<rparr>"
  let ?cs = "[CallSetId 4, CallSetState ''game''] :: (nat, string, nat, nat) call list"
  have "main_ai (sample\<lparr>main_ai := None\<rparr>) = None \<and> delegate (sample\<lparr>main_ai := None\<rparr>) 0 = Main"
    by (simp add: delegate_def sample_def)
  with act_without_main_fails [of "sample\<lparr>main_ai := None\<rparr>" 0 counting 0 False, THEN conjunct1]
  have a: "on_act counting 0 0 False (sample\<lparr>main_ai := None\<rparr>) = Inl NullPointer" by simp
  obtain m0 where n: "MixedAI_new counting 7 ?opt = Inr m0"
      and b: "backup_ai m0 = Some \<lparr>ai_id = 0, s_ptr = None, variant = SimpleAI, impl = 0\<rparr>"
      and i: "main_ai m0 = None"
    by (simp add: MixedAI_new_def parse_example stoi_10 stof_half bind_backup_def fresh_def
        new_agent_def SetId_def Let_def)
  obtain m1 where r: "run counting ?cs m0 = Inr m1"
    using b i by (simp add: MixedAI_SetId_def MixedAI_SetState_def on_set_id_def on_set_state_def)
  have c: "\<forall>c \<in> set ?cs. \<not> is_SetMainAI c" by simp
  from act_without_main_fails [where e = counting and now = 7 and opt = ?opt and ?m0.0 = m0
      and cs = ?cs and ?m1.0 = m1 and t = 12 and a = 0 and dn = False, THEN conjunct2] n r c
  have "on_act counting 12 0 False m1 = Inl NullPointer" by simp
  with a n r show ?thesis by blast
qed

subsection \<open>C9: the first game goes to the main agent\<close>

text \<open>
  Claim C9. In the first game of a freshly constructed \<open>MixedAI\<close>, that is after any
  sequence of calls without a \<open>GameEnd\<close>, the threshold is still the 0 of its member
  initialiser, whatever the arguments (and so whatever the start) were; \<open>on_act\<close> at
  every tick from 0 on goes to the main agent, its result is the main agent's, and the
  backup agent is left as it is. The threshold is drawn only in \<open>GameEnd\<close>, so the
  backup agent can act from the second game on.
\<close>

theorem first_game_main:
  assumes "MixedAI_new e now opt = Inr m0" and "episodes cs = 0" and "run e cs m0 = Inr m"
    and "0 \<le> t"
  shows "backup_ai_tick_thres m = 0 \<and> delegate m t = Main
    \<and> (\<forall>r a' m'. on_act e t a dn m = Inr (r, a', m') \<longrightarrow>
          backup_ai m' = backup_ai m
          \<and> (\<exists>mn. main_ai m = Some mn \<and> r = fst (sub_Act e mn t a dn)))"
proof -
  from run_thres [OF assms(2,3)] MixedAI_new_frame(2) [OF assms(1)]
  have z: "backup_ai_tick_thres m = 0" by simp
  with assms(4) have d: "delegate m t = Main" by (simp add: delegate_Main_iff)
  have "\<exists>mn. main_ai m = Some mn \<and> r = fst (sub_Act e mn t a dn) \<and> backup_ai m' = backup_ai m"
    if "on_act e t a dn m = Inr (r, a', m')" for r a' m'
    using on_act_Main_result [OF d that] by auto
  with z d show ?thesis by blast
qed

theorem first_game_main_witness:
  "\<exists>m0 m1 m2. MixedAI_new counting 7
          \<lparr>name = ''mixed'', fs = 1, fow = True, num_frames_in_state = 1,
           args = ''start/10|decay/0.5|backup/ai_simple''\<rparr> = Inr m0
        \<and> run counting [CallSetMainAI (Some trained), CallAct 0 0 False] m0 = Inr m1
        \<and> backup_ai m1 \<noteq> None \<and> delegate m1 0 = Main \<and> delegate m1 1 = Main
        \<and> run counting [CallGameEnd 90] m1 = Inr m2
        \<and> backup_ai_tick_thres m2 = 1 \<and> delegate m2 0 = Backup"
proof -
  let ?opt = "\<lparr>name = ''mixed'', fs = 1, fow = True, num_frames_in_state = 1,
           args = ''start/10|decay/0.5|backup/ai_simple''\<rparr>"
  let ?b = "\<lparr>ai_id = 0, s_ptr = None, variant = SimpleAI, impl = 0\<rparr> :: (nat, string, nat) agent"
  let ?m0 = "(fresh counting)\<lparr>backup_ai := Some ?b, latest_start := 10,
      latest_start_decay := Finite (1 / 2), rng := mt19937 counting 7\<rparr>"
  let ?m1 = "?m0\<lparr>main_ai := Some \<lparr>ai_id = 0, s_ptr = None, variant = TrainedAI, impl = 1\<rparr>\<rparr>"
  let ?m2 = "?m1\<lparr>main_ai := Some \<lparr>ai_id = 0, s_ptr = None, variant = TrainedAI, impl = 2\<rparr>,
      latest_start := 5, backup_ai_tick_thres := 1, rng := (\<lambda>n. 14 + 7 * n)\<rparr>"
  let ?cs = "[CallSetMainAI (Some trained), CallAct 0 0 False] :: (nat, string, nat, nat) call list"
  have n: "MixedAI_new counting 7 ?opt = Inr ?m0"
    by (simp add: MixedAI_new_def parse_example stoi_10 stof_half bind_backup_def fresh_def
        new_agent_def SetId_def Let_def)
  have r: "run counting ?cs ?m0 = Inr ?m1"
    by (simp add: SetMainAI_def SetId_def Let_def trained_def fresh_def on_act_def ptr_Act_def)
  have e: "episodes ?cs = 0" by (simp add: episodes_def)
  from first_game_main [OF n e r, of 0] first_game_main [OF n e r, of 1]
  have d: "delegate ?m1 0 = Main" "delegate ?m1 1 = Main" by simp_all
  have g: "run counting [CallGameEnd 90] ?m1 = Inr ?m2"
    by (simp add: fresh_def GameEnd_def rng_draw_def Let_def
        decay_defs fl_evals to_unsigned_def to_Tick_def)
  have b: "backup_ai ?m1 \<noteq> None" "backup_ai_tick_thres ?m2 = 1" "delegate ?m2 0 = Backup"
    by (simp_all add: delegate_def)
  from n r d g b show ?thesis by blast
qed

text \<open>Binding: the explicit results of \<open>SetId\<close> and \<open>SetState\<close> on a \<open>MixedAI\<close>.\<close>

lemma MixedAI_SetId_eq:
  "MixedAI_SetId e x m =
     m\<lparr>ai_id := x, backup_ai := map_option (SetId e x) (backup_ai m),
       main_ai := map_option (SetId e x) (main_ai m)\<rparr>"
  by (cases "backup_ai m"; cases "main_ai m") (simp_all add: MixedAI_SetId_def on_set_id_def)

lemma MixedAI_SetState_eq:
  "MixedAI_SetState e y m =
     Inr (m\<lparr>s_ptr := Some y, backup_ai := map_option (SetState e y) (backup_ai m),
            main_ai := map_option (SetState e y) (main_ai m)\<rparr>)"
  by (cases "backup_ai m"; cases "main_ai m") (simp_all add: MixedAI_SetState_def on_set_state_def)

lemma SetMainAI_bound:
  assumes "s_ptr m = Some y"
  shows "SetMainAI e (Some p) m = Inr (m\<lparr>main_ai := Some (SetState e y (SetId e (ai_id m) p))\<rparr>)"
  using assms by (simp add: SetMainAI_def Let_def)

lemma agent_bound_map_SetState_SetId:
  "agent_bound X Y (map_option (SetState e Y) (map_option (SetId e X) p))"
  by (cases p) (simp_all add: agent_bound_def)

lemma agent_bound_map_SetId_SetState:
  "agent_bound X Y (map_option (SetId e X) (map_option (SetState e Y) p))"
  by (cases p) (simp_all add: agent_bound_def)

lemma all_bound_SetMainAI:
  assumes "all_bound X Y m"
  shows "\<exists>m3 mn. SetMainAI e (Some p) m = Inr m3 \<and> main_ai m3 = Some mn
           \<and> variant mn = variant p \<and> backup_ai m3 = backup_ai m \<and> all_bound X Y m3"
proof -
  from assms have y: "s_ptr m = Some Y" and x: "ai_id m = X"
    and b: "agent_bound X Y (backup_ai m)" by (simp_all add: all_bound_def)
  let ?mn = "SetState e Y (SetId e X p)"
  let ?m3 = "m\<lparr>main_ai := Some ?mn\<rparr>"
  have "SetMainAI e (Some p) m = Inr ?m3" using SetMainAI_bound [OF y, of e p] x by simp
  moreover have "all_bound X Y ?m3" using x y b by (simp add: all_bound_def agent_bound_def)
  ultimately show ?thesis by simp
qed

subsection \<open>C7: the bindings reach the owned agents\<close>

text \<open>
  Claim C7. After \<open>SetId(X)\<close> and \<open>SetState(Y)\<close> on a \<open>MixedAI\<close>, in either order, both
  calls have returned, the \<open>MixedAI\<close> and every owned agent that is present (backup
  and main) report the identity \<open>X\<close> and point to the state \<open>Y\<close>, and no agent has
  appeared or gone. A main agent \<open>p\<close> installed afterwards by \<open>SetMainAI\<close>, whatever
  it was bound to before, reports \<open>X\<close> and points to \<open>Y\<close> as well, and the backup
  agent keeps its bindings.
\<close>

theorem bindings_reach_agents:
  "(\<exists>m2. MixedAI_SetState e Y (MixedAI_SetId e X m) = Inr m2
        \<and> all_bound X Y m2
        \<and> (backup_ai m2 = None \<longleftrightarrow> backup_ai m = None)
        \<and> (main_ai m2 = None \<longleftrightarrow> main_ai m = None)
        \<and> (\<exists>m3 mn. SetMainAI e (Some p) m2 = Inr m3 \<and> main_ai m3 = Some mn
              \<and> variant mn = variant p \<and> backup_ai m3 = backup_ai m2 \<and> all_bound X Y m3))
   \<and> (\<exists>m1 m2. MixedAI_SetState e Y m = Inr m1 \<and> MixedAI_SetId e X m1 = m2
        \<and> all_bound X Y m2
        \<and> (backup_ai m2 = None \<longleftrightarrow> backup_ai m = None)
        \<and> (main_ai m2 = None \<longleftrightarrow> main_ai m = None)
        \<and> (\<exists>m3 mn. SetMainAI e (Some p) m2 = Inr m3 \<and> main_ai m3 = Some mn
              \<and> variant mn = variant p \<and> backup_ai m3 = backup_ai m2 \<and> all_bound X Y m3))"
proof (intro conjI)
  define m2 where "m2 = m\<lparr>ai_id := X, s_ptr := Some Y,
      backup_ai := map_option (SetState e Y) (map_option (SetId e X) (backup_ai m)),
      main_ai := map_option (SetState e Y) (map_option (SetId e X) (main_ai m))\<rparr>"
  have a: "MixedAI_SetState e Y (MixedAI_SetId e X m) = Inr m2"
    by (simp add: m2_def MixedAI_SetId_eq MixedAI_SetState_eq)
  have b: "all_bound X Y m2"
    by (simp add: m2_def all_bound_def agent_bound_map_SetState_SetId)
  have c: "backup_ai m2 = None \<longleftrightarrow> backup_ai m = None"
    "main_ai m2 = None \<longleftrightarrow> main_ai m = None" by (simp_all add: m2_def)
  note d = all_bound_SetMainAI [OF b, of e p]
  show "\<exists>m2. MixedAI_SetState e Y (MixedAI_SetId e X m) = Inr m2
        \<and> all_bound X Y m2
        \<and> (backup_ai m2 = None \<longleftrightarrow> backup_ai m = None)
        \<and> (main_ai m2 = None \<longleftrightarrow> main_ai m = None)
        \<and> (\<exists>m3 mn. SetMainAI e (Some p) m2 = Inr m3 \<and> main_ai m3 = Some mn
              \<and> variant mn = variant p \<and> backup_ai m3 = backup_ai m2 \<and> all_bound X Y m3)"
    by (intro exI [of _ m2] conjI a b c d)
next
  define m1 where "m1 = m\<lparr>s_ptr := Some Y, backup_ai := map_option (SetState e Y) (backup_ai m),
            main_ai := map_option (SetState e Y) (main_ai m)\<rparr>"
  define m2 where "m2 = MixedAI_SetId e X m1"
  have a: "MixedAI_SetState e Y m = Inr m1" unfolding m1_def by (rule MixedAI_SetState_eq)
  have a2: "MixedAI_SetId e X m1 = m2" by (simp add: m2_def)
  have b: "all_bound X Y m2"
    by (simp add: m2_def m1_def MixedAI_SetId_eq all_bound_def agent_bound_map_SetId_SetState)
  have c: "backup_ai m2 = None \<longleftrightarrow> backup_ai m = None"
    "main_ai m2 = None \<longleftrightarrow> main_ai m = None"
    by (simp_all add: m2_def m1_def MixedAI_SetId_eq)
  note d = all_bound_SetMainAI [OF b, of e p]
  show "\<exists>m1 m2. MixedAI_SetState e Y m = Inr m1 \<and> MixedAI_SetId e X m1 = m2
        \<and> all_bound X Y m2
        \<and> (backup_ai m2 = None \<longleftrightarrow> backup_ai m = None)
        \<and> (main_ai m2 = None \<longleftrightarrow> main_ai m = None)
        \<and> (\<exists>m3 mn. SetMainAI e (Some p) m2 = Inr m3 \<and> main_ai m3 = Some mn
              \<and> variant mn = variant p \<and> backup_ai m3 = backup_ai m2 \<and> all_bound X Y m3)"
    by (intro exI [of _ m1] exI [of _ m2] conjI a a2 b c d)
qed

theorem bindings_reach_agents_witness:
  "\<exists>m2. MixedAI_SetState counting ''game''
           (MixedAI_SetId counting 4
              ((fresh counting)\<lparr>backup_ai := Some (new_agent counting SimpleAI),
                 main_ai := Some trained\<rparr>)) = Inr m2
        \<and> all_bound 4 ''game'' m2
        \<and> backup_ai m2 = Some \<lparr>ai_id = 4, s_ptr = Some ''game'', variant = SimpleAI, impl = 0\<rparr>
        \<and> main_ai m2 = Some \<lparr>ai_id = 4, s_ptr = Some ''game'', variant = TrainedAI, impl = 0\<rparr>"
proof -
  let ?m = "(fresh counting)\<lparr>backup_ai := Some (new_agent counting SimpleAI),
                 main_ai := Some trained\<rparr>"
  from bindings_reach_agents [of counting "''game''" 4 ?m trained, THEN conjunct1]
  obtain m2 where a: "MixedAI_SetState counting ''game'' (MixedAI_SetId counting 4 ?m) = Inr m2"
    and b: "all_bound 4 ''game'' m2" by blast
  from a have "backup_ai m2 = Some \<lparr>ai_id = 4, s_ptr = Some ''game'', variant = SimpleAI, impl = 0\<rparr>
        \<and> main_ai m2 = Some \<lparr>ai_id = 4, s_ptr = Some ''game'', variant = TrainedAI, impl = 0\<rparr>"
    by (auto simp: MixedAI_SetId_eq MixedAI_SetState_eq fresh_def new_agent_def trained_def
        SetId_def SetState_def Let_def)
  with a b show ?thesis by (intro exI [of _ m2]) simp
qed

text \<open>The map that \<open>_parse\<close> builds has its keys in strictly increasing order.\<close>

lemma set_map_insert: "set (map_insert kv m) \<subseteq> insert kv (set m)"
  by (induction kv m rule: map_insert.induct) auto

lemma sorted_map_insert:
  "sorted_wrt (<) (map fst m) \<Longrightarrow> sorted_wrt (<) (map fst (map_insert kv m))"
proof (induction kv m rule: map_insert.induct)
  case (1 kv)
  show ?case by simp
next
  case (2 kv p ps)
  show ?case
  proof (cases "fst kv = fst p")
    case True
    with 2 show ?thesis by simp
  next
    case False
    show ?thesis
    proof (cases "fst kv < fst p")
      case True
      with 2 False show ?thesis by auto
    next
      case nl: False
      with False have gt: "fst p < fst kv" by simp
      from 2 False nl have ih: "sorted_wrt (<) (map fst (map_insert kv ps))" by simp
      have "\<forall>k \<in> set (map fst (map_insert kv ps)). fst p < k"
      proof
        fix k assume "k \<in> set (map fst (map_insert kv ps))"
        then obtain q where q: "q \<in> set (map_insert kv ps)" "k = fst q" by auto
        with set_map_insert [of kv ps] have "q = kv \<or> q \<in> set ps" by auto
        with q gt 2(2) show "fst p < k" by auto
      qed
      with ih False nl show ?thesis by simp
    qed
  qed
qed

lemma sorted_parse_items:
  "sorted_wrt (<) (map fst m) \<Longrightarrow> sorted_wrt (<) (map fst (parse_items items m))"
  by (induction items arbitrary: m) (simp_all add: Let_def sorted_map_insert)

lemma sorted_parse: "sorted_wrt (<) (map fst (parse s))"
  by (simp add: parse_def sorted_parse_items)

lemma sorted_keys_unique:
  "sorted_wrt (<) (map fst (m :: kvmap)) \<Longrightarrow> (k, v) \<in> set m \<Longrightarrow> (k, v') \<in> set m \<Longrightarrow> v = v'"
proof (induction m)
  case Nil
  then show ?case by simp
next
  case (Cons p m)
  then show ?case by (cases p) force
qed

lemma parse_key_unique:
  "(k, v) \<in> set (parse s) \<Longrightarrow> (k, v') \<in> set (parse s) \<Longrightarrow> v = v'"
  using sorted_keys_unique [OF sorted_parse] .

text \<open>The class of the backup agent never changes.\<close>

lemma step_backup_variant:
  assumes "step e c m = Inr m'"
  shows "map_option variant (backup_ai m') = map_option variant (backup_ai m)"
proof (cases c)
  case (CallAct t a d)
  with assms obtain r a' where o: "on_act e t a d m = Inr (r, a', m')"
    using map_sum_snd_snd_Inr [of "on_act e t a d m" m'] by auto
  then show ?thesis
    by (auto simp: on_act_def ptr_Act_def Let_def split_beta
        split: if_splits sum.splits option.splits)
next
  case (CallGameEnd t)
  with assms obtain r where "GameEnd e t m = Inr (r, m')"
    using map_sum_snd_Inr [of "GameEnd e t m" m'] by auto
  from GameEnd_frame(1) [OF this] show ?thesis by simp
next
  case (CallSetId x)
  with assms have "m' = MixedAI_SetId e x m" by simp
  then show ?thesis by (simp add: MixedAI_SetId_eq option.map_comp comp_def)
next
  case (CallSetState y)
  with assms have "MixedAI_SetState e y m = Inr m'" by simp
  then show ?thesis by (auto simp: MixedAI_SetState_eq option.map_comp comp_def)
next
  case (CallSetMainAI p)
  with assms have "SetMainAI e p m = Inr m'" by simp
  from SetMainAI_frame(6) [OF this] show ?thesis by simp
qed

lemma run_backup_variant:
  "run e cs m = Inr m' \<Longrightarrow> map_option variant (backup_ai m') = map_option variant (backup_ai m)"
proof (induction cs arbitrary: m)
  case Nil
  then show ?case by simp
next
  case (Cons c cs)
  then obtain m1 where s: "step e c m = Inr m1" and r: "run e cs m1 = Inr m'"
    by (auto split: sum.splits)
  from Cons.IH [OF r] step_backup_variant [OF s] show ?case by simp
qed

lemma MixedAI_new_cout:
  assumes "MixedAI_new e now opt = Inr m"
  shows "cout m = map (\<lambda>kv. unrecognized (fst kv) (snd kv))
       (filter (\<lambda>kv. fst kv \<noteq> ''start'' \<and> fst kv \<noteq> ''decay'' \<and> fst kv \<noteq> ''backup'')
          (parse (args opt)))"
proof (cases "args opt = []")
  case True
  with assms show ?thesis by (auto simp: MixedAI_new_def fresh_def parse_def split_def)
next
  case False
  with assms obtain m1 where l: "ctor_loop e (parse (args opt)) (fresh e) = Inr m1"
    and m: "m = (bind_backup e m1)\<lparr>rng := mt19937 e now\<rparr>"
    by (auto simp: MixedAI_new_def split: sum.splits)
  from ctor_loop_cout [OF l] show ?thesis by (simp add: m bind_backup_frame fresh_def)
qed

lemma MixedAI_new_returns:
  assumes "\<forall>kv \<in> set (parse (args opt)). (fst kv = ''start'' \<longrightarrow> returns (stoi (snd kv)))
       \<and> (fst kv = ''decay'' \<longrightarrow> returns (stof (snd kv)))"
  shows "returns (MixedAI_new e now opt)"
proof (cases "args opt = []")
  case True
  then show ?thesis by (simp add: MixedAI_new_def)
next
  case False
  from ctor_loop_returns [OF assms, of e "fresh e"]
  obtain m1 where "ctor_loop e (parse (args opt)) (fresh e) = Inr m1" by (auto simp: returns_iff)
  with False show ?thesis by (simp add: MixedAI_new_def)
qed

text \<open>The decay of line 132 against the exact product.\<close>

lemma float_to_int_error: "\<bar>real_of_int (float_to_int v) - v\<bar> < 1"
  unfolding float_to_int_def by (auto simp: abs_if) linarith+

lemma float_product_error:
  "\<bar>fl (fl (real_of_int L) * d) - real_of_int L * d\<bar> \<le> \<bar>real_of_int L * d\<bar> / 2 ^ 22"
proof -
  define a where "a = fl (real_of_int L)"
  define y where "y = \<bar>real_of_int L * d\<bar>"
  have y: "0 \<le> y" by (simp add: y_def)
  have "\<bar>a - real_of_int L\<bar> \<le> \<bar>real_of_int L\<bar> / 2 ^ 24"
    unfolding a_def by (rule fl_error)
  then have "\<bar>a - real_of_int L\<bar> * \<bar>d\<bar> \<le> (\<bar>real_of_int L\<bar> / 2 ^ 24) * \<bar>d\<bar>"
    by (intro mult_right_mono) simp_all
  then have 1: "\<bar>a * d - real_of_int L * d\<bar> \<le> y / 2 ^ 24"
    by (simp add: y_def abs_mult [symmetric] left_diff_distrib)
  then have "\<bar>a * d\<bar> \<le> y + y / 2 ^ 24" unfolding y_def by linarith
  with y have 2: "\<bar>a * d\<bar> \<le> 2 * y" by simp
  have "\<bar>fl (a * d) - a * d\<bar> \<le> \<bar>a * d\<bar> / 2 ^ 24" by (rule fl_error)
  with 2 have 3: "\<bar>fl (a * d) - a * d\<bar> \<le> 2 * y / 2 ^ 24" by simp
  from 1 3 have "\<bar>fl (a * d) - real_of_int L * d\<bar> \<le> y / 2 ^ 24 + 2 * y / 2 ^ 24" by linarith
  also have "\<dots> \<le> y / 2 ^ 22" using y by simp
  finally show ?thesis by (simp add: a_def y_def)
qed

lemma decay_step_Inr:
  assumes "decay_step D L = Inr x"
  shows "\<exists>d. D = Finite d \<and> x = float_to_int (fl (fl (real_of_int L) * d))
           \<and> in_int_range x
           \<and> \<bar>real_of_int x - real_of_int L * d\<bar> < 1 + \<bar>real_of_int L * d\<bar> / 2 ^ 22"
proof (cases D)
  case (Finite d)
  with assms have x: "x = float_to_int (fl (fl (real_of_int L) * d))" and r: "in_int_range x"
    by (auto simp: decay_step_def Let_def split: if_splits)
  from float_to_int_error [of "fl (fl (real_of_int L) * d)"] float_product_error [of L d]
  have "\<bar>real_of_int x - real_of_int L * d\<bar> < 1 + \<bar>real_of_int L * d\<bar> / 2 ^ 22"
    unfolding x by linarith
  with Finite x r show ?thesis by simp
next
  case (Infinity sign)
  with assms show ?thesis by (simp add: decay_step_def)
next
  case NaN
  with assms show ?thesis by (simp add: decay_step_def)
qed

lemma decay_step_returns:
  assumes "0 \<le> d" "d \<le> 1" "0 \<le> L" "L \<le> 2 ^ 30"
  shows "\<exists>x. decay_step (Finite d) L = Inr x \<and> 0 \<le> x \<and> x < 2 ^ 31 - 1"
proof -
  define v where "v = fl (fl (real_of_int L) * d)"
  have "0 \<le> fl (real_of_int L)" using assms(3) by (intro fl_nonneg) simp
  then have nn: "0 \<le> v" unfolding v_def using assms(1) by (intro fl_nonneg) simp
  have ld: "real_of_int L * d \<le> 2 ^ 30"
  proof -
    have "real_of_int L * d \<le> real_of_int L * 1" using assms by (intro mult_left_mono) simp_all
    also have "\<dots> \<le> 2 ^ 30" using assms(4) by (metis mult.right_neutral of_int_le_iff of_int_numeral of_int_power)
    finally show ?thesis .
  qed
  have ld0: "0 \<le> real_of_int L * d" using assms by simp
  define y where "y = real_of_int L * d"
  have "\<bar>v - y\<bar> \<le> \<bar>y\<bar> / 2 ^ 22"
    unfolding v_def y_def by (rule float_product_error)
  moreover have "0 \<le> y" "y \<le> 2 ^ 30" using ld ld0 by (simp_all add: y_def)
  ultimately have "v \<le> 2 ^ 30 + 2 ^ 30 / 2 ^ 22" by (simp add: abs_if split: if_splits)
  then have "v < 2 ^ 31 - 1" by simp
  with nn have "0 \<le> float_to_int v \<and> float_to_int v < 2 ^ 31 - 1"
    by (simp add: float_to_int_def floor_less_iff)
  then show ?thesis
    by (simp add: decay_step_def Let_def v_def [symmetric] in_int_range_def)
qed

subsection \<open>C1: what GameEnd returns and in which order it works\<close>

text \<open>
  Claim C1. \<open>MixedAI::GameEnd(t)\<close> calls the main agent's \<open>GameEnd(t)\<close> and keeps
  its result, then multiplies \<open>_latest_start\<close> by the decay, then draws the threshold
  for the next game from the decayed value; the value it returns is the value the main
  agent's \<open>GameEnd(t)\<close> returned, whatever the tick and whatever the backup agent
  \<open>b\<close> is. Stated in three parts. With a main agent installed, a start in
  \<open>[0, 2^30]\<close> and a finite decay in \<open>[0, 1]\<close> the call returns the main agent's
  result. Without a main agent the call fails at the empty pointer, before anything
  else. Whenever the call returns, it returns the main agent's result, the main agent
  has served \<open>GameEnd\<close>, the backup agent is untouched, \<open>_latest_start\<close> is the
  single-precision product of the start converted to \<open>float\<close> and the decay, with its
  fraction dropped, which is within \<open>1 + \<bar>start * decay\<bar> / 2^22\<close> of the exact product;
  the generator has yielded one number, and the threshold is that number reduced
  modulo \<open>int(_latest_start + 0.5) + 1\<close> of the decayed start.
\<close>

theorem GameEnd_returns_main:
  "(main_ai m = Some a \<and> latest_start_decay m = Finite d \<and> 0 \<le> d \<and> d \<le> 1
      \<and> 0 \<le> latest_start m \<and> latest_start m \<le> 2 ^ 30
     \<longrightarrow> (\<exists>m'. GameEnd e t (m\<lparr>backup_ai := b\<rparr>) = Inr (fst (sub_GameEnd e a t), m')))
   \<and> (main_ai m = None \<longrightarrow> GameEnd e t (m\<lparr>backup_ai := b\<rparr>) = Inl NullPointer)
   \<and> (\<forall>res m'. GameEnd e t (m\<lparr>backup_ai := b\<rparr>) = Inr (res, m') \<longrightarrow>
        (\<exists>a d. main_ai m = Some a \<and> res = fst (sub_GameEnd e a t)
           \<and> main_ai m' = Some (a\<lparr>impl := snd (sub_GameEnd e a t)\<rparr>)
           \<and> backup_ai m' = b
           \<and> latest_start_decay m = Finite d
           \<and> latest_start m' = float_to_int (fl (fl (real_of_int (latest_start m)) * d))
           \<and> \<bar>real_of_int (latest_start m') - real_of_int (latest_start m) * d\<bar>
                < 1 + \<bar>real_of_int (latest_start m) * d\<bar> / 2 ^ 22
           \<and> rng m' = (\<lambda>n. rng m (Suc n))
           \<and> backup_ai_tick_thres m' =
                to_Tick (int (rng m 0 mod 2 ^ 32)
                  mod to_unsigned (float_to_int (real_of_int (latest_start m') + 0.5) + 1))))"
proof (intro conjI impI allI)
  assume h: "main_ai m = Some a \<and> latest_start_decay m = Finite d \<and> 0 \<le> d \<and> d \<le> 1
      \<and> 0 \<le> latest_start m \<and> latest_start m \<le> 2 ^ 30"
  let ?m = "m\<lparr>backup_ai := b\<rparr>"
  from h decay_step_returns [of d "latest_start m"]
  obtain x where x: "decay_step (Finite d) (latest_start m) = Inr x" "0 \<le> x" "x < 2 ^ 31 - 1"
    by auto
  from h x have "GameEnd e t ?m =
     Inr (fst (sub_GameEnd e a t),
          ?m\<lparr>main_ai := Some (a\<lparr>impl := snd (sub_GameEnd e a t)\<rparr>),
            latest_start := x,
            backup_ai_tick_thres := int (rng ?m 0 mod 2 ^ 32) mod (x + 1),
            rng := (\<lambda>n. rng ?m (Suc n))\<rparr>)"
    by (intro GameEnd_ok) simp_all
  then show "\<exists>m'. GameEnd e t ?m = Inr (fst (sub_GameEnd e a t), m')" by blast
next
  assume "main_ai m = None"
  then show "GameEnd e t (m\<lparr>backup_ai := b\<rparr>) = Inl NullPointer"
    by (simp add: GameEnd_def)
next
  fix res m'
  assume g: "GameEnd e t (m\<lparr>backup_ai := b\<rparr>) = Inr (res, m')"
  from GameEnd_Inr [OF g] obtain a where a: "main_ai m = Some a" "res = fst (sub_GameEnd e a t)"
      "main_ai m' = Some (a\<lparr>impl := snd (sub_GameEnd e a t)\<rparr>)" "backup_ai m' = b"
      "decay_step (latest_start_decay m) (latest_start m) = Inr (latest_start m')"
      "rng m' = (\<lambda>n. rng m (Suc n))"
      "backup_ai_tick_thres m' =
                to_Tick (int (rng m 0 mod 2 ^ 32)
                  mod to_unsigned (float_to_int (real_of_int (latest_start m') + 0.5) + 1))"
    by auto
  from decay_step_Inr [OF a(5)] obtain d where d: "latest_start_decay m = Finite d"
      "latest_start m' = float_to_int (fl (fl (real_of_int (latest_start m)) * d))"
      "\<bar>real_of_int (latest_start m') - real_of_int (latest_start m) * d\<bar>
                < 1 + \<bar>real_of_int (latest_start m) * d\<bar> / 2 ^ 22"
    by auto
  show "\<exists>a d. main_ai m = Some a \<and> res = fst (sub_GameEnd e a t)
           \<and> main_ai m' = Some (a\<lparr>impl := snd (sub_GameEnd e a t)\<rparr>)
           \<and> backup_ai m' = b
           \<and> latest_start_decay m = Finite d
           \<and> latest_start m' = float_to_int (fl (fl (real_of_int (latest_start m)) * d))
           \<and> \<bar>real_of_int (latest_start m') - real_of_int (latest_start m) * d\<bar>
                < 1 + \<bar>real_of_int (latest_start m) * d\<bar> / 2 ^ 22
           \<and> rng m' = (\<lambda>n. rng m (Suc n))
           \<and> backup_ai_tick_thres m' =
                to_Tick (int (rng m 0 mod 2 ^ 32)
                  mod to_unsigned (float_to_int (real_of_int (latest_start m') + 0.5) + 1))"
    by (intro exI [of _ a] exI [of _ d] conjI a(1-4) d a(6,7))
qed

theorem GameEnd_returns_main_witness:
  "(\<exists>m'. GameEnd counting 250 (sample\<lparr>backup_ai := None\<rparr>) = Inr (True, m')
        \<and> latest_start m' = 5 \<and> backup_ai_tick_thres m' = 3)
   \<and> stof ''0.59'' = Inr (Finite (9898557 / 16777216))
   \<and> (\<exists>m'. GameEnd counting 250
           (sample\<lparr>latest_start := 100, latest_start_decay := Finite (9898557 / 16777216),
              backup_ai := None\<rparr>) = Inr (True, m')
        \<and> latest_start m' = 58 \<and> backup_ai_tick_thres m' = 3)"
proof (intro conjI)
  let ?a = "\<lparr>ai_id = 4, s_ptr = Some ''game'', variant = TrainedAI, impl = 0\<rparr> :: (nat, string, nat) agent"
  have s: "main_ai sample = Some ?a \<and> latest_start_decay sample = Finite (1 / 2)
      \<and> (0::real) \<le> 1 / 2 \<and> (1 / 2 :: real) \<le> 1
      \<and> 0 \<le> latest_start sample \<and> latest_start sample \<le> 2 ^ 30"
    by (simp add: sample_def)
  from GameEnd_returns_main [of sample ?a "1 / 2" counting 250 None, THEN conjunct1, rule_format, OF s]
  obtain m' where g: "GameEnd counting 250 (sample\<lparr>backup_ai := None\<rparr>) = Inr (True, m')"
    by auto
  from GameEnd_returns_main [of sample _ _ counting 250 None, THEN conjunct2, THEN conjunct2,
      rule_format, OF g]
  obtain d where d: "latest_start_decay sample = Finite d"
      and l: "latest_start m' = float_to_int (fl (fl (real_of_int (latest_start sample)) * d))"
      and t: "backup_ai_tick_thres m' =
                to_Tick (int (rng sample 0 mod 2 ^ 32)
                  mod to_unsigned (float_to_int (real_of_int (latest_start m') + 0.5) + 1))"
    by blast
  from d have "d = 1 / 2" by (simp add: sample_def)
  with l have l5: "latest_start m' = 5" by (simp add: sample_def fl_evals float_to_int_def)
  with t have "backup_ai_tick_thres m' = 3"
    by (simp add: sample_def float_to_int_def to_unsigned_def to_Tick_def)
  with l5 have "latest_start m' = 5 \<and> backup_ai_tick_thres m' = 3" by simp
  with g show "\<exists>m'. GameEnd counting 250 (sample\<lparr>backup_ai := None\<rparr>) = Inr (True, m')
        \<and> latest_start m' = 5 \<and> backup_ai_tick_thres m' = 3" by blast
next
  show "stof ''0.59'' = Inr (Finite (9898557 / 16777216))"
    by (simp add: read_defs fl_evals)
next
  let ?a = "\<lparr>ai_id = 4, s_ptr = Some ''game'', variant = TrainedAI, impl = 0\<rparr> :: (nat, string, nat) agent"
  let ?m = "sample\<lparr>latest_start := 100, latest_start_decay := Finite (9898557 / 16777216)\<rparr>"
  have s: "main_ai ?m = Some ?a \<and> latest_start_decay ?m = Finite (9898557 / 16777216)
      \<and> (0::real) \<le> 9898557 / 16777216 \<and> (9898557 / 16777216 :: real) \<le> 1
      \<and> 0 \<le> latest_start ?m \<and> latest_start ?m \<le> 2 ^ 30"
    by (simp add: sample_def)
  from GameEnd_returns_main [of ?m ?a "9898557 / 16777216" counting 250 None, THEN conjunct1,
      rule_format, OF s]
  obtain m' where g: "GameEnd counting 250 (?m\<lparr>backup_ai := None\<rparr>) = Inr (True, m')"
    by auto
  from GameEnd_returns_main [of ?m _ _ counting 250 None, THEN conjunct2, THEN conjunct2,
      rule_format, OF g]
  obtain d where d: "latest_start_decay ?m = Finite d"
      and l: "latest_start m' = float_to_int (fl (fl (real_of_int (latest_start ?m)) * d))"
      and t: "backup_ai_tick_thres m' =
                to_Tick (int (rng ?m 0 mod 2 ^ 32)
                  mod to_unsigned (float_to_int (real_of_int (latest_start m') + 0.5) + 1))"
    by blast
  from d have "d = 9898557 / 16777216" by simp
  with l have l5: "latest_start m' = 58" by (simp add: fl_evals float_to_int_def)
  with t have "backup_ai_tick_thres m' = 3"
    by (simp add: sample_def float_to_int_def to_unsigned_def to_Tick_def)
  with l5 have "latest_start m' = 58 \<and> backup_ai_tick_thres m' = 3" by simp
  with g show "\<exists>m'. GameEnd counting 250
           (sample\<lparr>latest_start := 100, latest_start_decay := Finite (9898557 / 16777216),
              backup_ai := None\<rparr>) = Inr (True, m')
        \<and> latest_start m' = 58 \<and> backup_ai_tick_thres m' = 3" by blast
qed

subsection \<open>C10: a backup entry that names no known class\<close>

text \<open>
  Claim C10, as stated: for every argument string that contains a \<open>backup\<close> key whose
  value is none of the four recognized names, construction succeeds and no backup agent
  is installed. Two strings show otherwise. In \<open>backup/lua|start/ten\<close> the backup
  entry is passed over, and then \<open>std::stoi\<close> throws on the value of \<open>start\<close>, which
  the constructor does not catch: construction does not succeed. The string
  \<open>backup/ai_simple|backup/lua\<close> contains the field \<open>backup/lua\<close>, but the map of
  \<open>_parse\<close> keeps the first field of a key: a \<open>SimpleAI\<close> is installed.
\<close>

theorem unknown_backup_counterexample:
  "((''backup'', ''lua'') \<in> set (parse ''backup/lua|start/ten'')
     \<and> backup_variant ''lua'' = None
     \<and> MixedAI_new counting 7
          \<lparr>name = ''mixed'', fs = 1, fow = True, num_frames_in_state = 1,
           args = ''backup/lua|start/ten''\<rparr> = Inl InvalidArgument)
   \<and> (''backup/lua'' \<in> set (split ''backup/ai_simple|backup/lua'' (CHR ''|''))
     \<and> split ''backup/lua'' (CHR ''/'') = [''backup'', ''lua'']
     \<and> map_sum id (map_option variant \<circ> backup_ai)
          (MixedAI_new counting 7
            \<lparr>name = ''mixed'', fs = 1, fow = True, num_frames_in_state = 1,
             args = ''backup/ai_simple|backup/lua''\<rparr>) = Inr (Some SimpleAI))"
proof -
  have p: "parse ''backup/lua|start/ten'' = [(''backup'', ''lua''), (''start'', ''ten'')]"
    by (simp add: parse_def split_def)
  have s: "stoi ''ten'' = Inl InvalidArgument" by (simp add: read_defs)
  have 1: "(''backup'', ''lua'') \<in> set (parse ''backup/lua|start/ten'')
     \<and> backup_variant ''lua'' = None
     \<and> MixedAI_new counting 7
          \<lparr>name = ''mixed'', fs = 1, fow = True, num_frames_in_state = 1,
           args = ''backup/lua|start/ten''\<rparr> = Inl InvalidArgument"
    by (simp add: p s backup_variant_def MixedAI_new_def)
  have q: "parse ''backup/ai_simple|backup/lua'' = [(''backup'', ''ai_simple'')]"
    by (simp add: parse_def split_def)
  have 2: "''backup/lua'' \<in> set (split ''backup/ai_simple|backup/lua'' (CHR ''|''))
     \<and> split ''backup/lua'' (CHR ''/'') = [''backup'', ''lua'']"
    by (simp add: split_def)
  have 3: "map_sum id (map_option variant \<circ> backup_ai)
          (MixedAI_new counting 7
            \<lparr>name = ''mixed'', fs = 1, fow = True, num_frames_in_state = 1,
             args = ''backup/ai_simple|backup/lua''\<rparr>) = Inr (Some SimpleAI)"
    by (simp add: q MixedAI_new_def bind_backup_def fresh_def new_agent_def)
  from 1 2 3 show ?thesis by simp
qed

text \<open>
  Claim C10, amended. Let the map that \<open>_parse\<close> reads from the arguments hold, for the
  key \<open>backup\<close>, a value \<open>v\<close> that is none of the four recognized names (the map keeps
  the first field of each key). Then the entry does not stop the constructor:
  construction succeeds whenever \<open>std::stoi\<close> returns on every value of \<open>start\<close> and
  \<open>std::stof\<close> on every value of \<open>decay\<close> in the map. Whenever construction succeeds,
  no backup agent is installed, none is installed by any later sequence of calls, and
  the lines written are exactly those of the entries whose key is none of \<open>start\<close>,
  \<open>decay\<close>, \<open>backup\<close>: none for the backup entry. For all arguments, the backup agent
  of a constructed \<open>MixedAI\<close> is a \<open>SimpleAI\<close> or a \<open>HitAndRunAI\<close> and stays so: never
  a \<open>LuaAI\<close>.
\<close>

theorem unknown_backup_ignored:
  assumes "(''backup'', v) \<in> set (parse (args opt))" and "backup_variant v = None"
  shows "((\<forall>kv \<in> set (parse (args opt)).
            (fst kv = ''start'' \<longrightarrow> returns (stoi (snd kv)))
            \<and> (fst kv = ''decay'' \<longrightarrow> returns (stof (snd kv))))
          \<longrightarrow> returns (MixedAI_new e now opt))
    \<and> (\<forall>m cs m'. MixedAI_new e now opt = Inr m \<and> run e cs m = Inr m' \<longrightarrow>
          backup_ai m = None \<and> backup_ai m' = None
          \<and> cout m = map (\<lambda>kv. unrecognized (fst kv) (snd kv))
               (filter (\<lambda>kv. fst kv \<noteq> ''start'' \<and> fst kv \<noteq> ''decay'' \<and> fst kv \<noteq> ''backup'')
                  (parse (args opt))))
    \<and> (\<forall>opt' m cs m' b. MixedAI_new e now opt' = Inr m \<and> run e cs m = Inr m'
            \<and> backup_ai m' = Some b \<longrightarrow>
          variant b = SimpleAI \<or> variant b = HitAndRunAI)"
proof (intro conjI allI impI)
  assume "\<forall>kv \<in> set (parse (args opt)).
            (fst kv = ''start'' \<longrightarrow> returns (stoi (snd kv)))
            \<and> (fst kv = ''decay'' \<longrightarrow> returns (stof (snd kv)))"
  then show "returns (MixedAI_new e now opt)" by (rule MixedAI_new_returns)
next
  fix m cs m'
  assume h: "MixedAI_new e now opt = Inr m \<and> run e cs m = Inr m'"
  have u: "\<forall>kv \<in> set (parse (args opt)). fst kv = ''backup'' \<longrightarrow> backup_variant (snd kv) = None"
  proof (intro ballI impI)
    fix kv assume k: "kv \<in> set (parse (args opt))" "fst kv = ''backup''"
    have "kv = (fst kv, snd kv)" by simp
    with k have "(''backup'', snd kv) \<in> set (parse (args opt))" by metis
    from parse_key_unique [OF this assms(1)] assms(2)
    show "backup_variant (snd kv) = None" by simp
  qed
  from h have n: "MixedAI_new e now opt = Inr m" and r: "run e cs m = Inr m'" by simp_all
  from MixedAI_new_no_backup [OF n u] show b: "backup_ai m = None" .
  with run_backup_present [OF r] show "backup_ai m' = None" by simp
  from MixedAI_new_cout [OF n]
  show "cout m = map (\<lambda>kv. unrecognized (fst kv) (snd kv))
               (filter (\<lambda>kv. fst kv \<noteq> ''start'' \<and> fst kv \<noteq> ''decay'' \<and> fst kv \<noteq> ''backup'')
                  (parse (args opt)))" .
next
  fix opt' m cs m' b
  assume h: "MixedAI_new e now opt' = Inr m \<and> run e cs m = Inr m' \<and> backup_ai m' = Some b"
  then have n: "MixedAI_new e now opt' = Inr m" and r: "run e cs m = Inr m'"
    and b: "backup_ai m' = Some b" by simp_all
  from run_backup_variant [OF r] b obtain b0 where b0: "backup_ai m = Some b0"
    and v: "variant b0 = variant b" by (cases "backup_ai m") auto
  from MixedAI_new_backup_variant [OF n b0] v
  show "variant b = SimpleAI \<or> variant b = HitAndRunAI" by simp
qed

theorem unknown_backup_ignored_witness:
  "\<exists>m. MixedAI_new counting 7
          \<lparr>name = ''mixed'', fs = 1, fow = True, num_frames_in_state = 1,
           args = ''zeta/1|backup/lua|start/10|decay/inf''\<rparr> = Inr m
       \<and> backup_ai m = None \<and> latest_start m = 10 \<and> latest_start_decay m = Infinity False
       \<and> cout m = [''Unrecognized (key, value) = (zeta,1)'']"
proof -
  let ?opt = "\<lparr>name = ''mixed'', fs = 1, fow = True, num_frames_in_state = 1,
           args = ''zeta/1|backup/lua|start/10|decay/inf''\<rparr>"
  have p: "parse ''zeta/1|backup/lua|start/10|decay/inf'' =
      [(''backup'', ''lua''), (''decay'', ''inf''), (''start'', ''10''), (''zeta'', ''1'')]"
    by (simp add: parse_def split_def)
  have f: "stof ''inf'' = Inr (Infinity False)" by (simp add: read_defs)
  have a: "(''backup'', ''lua'') \<in> set (parse (args ?opt))" by (simp add: p)
  have v: "backup_variant ''lua'' = None" by (simp add: backup_variant_def)
  have s: "\<forall>kv \<in> set (parse (args ?opt)).
            (fst kv = ''start'' \<longrightarrow> returns (stoi (snd kv)))
            \<and> (fst kv = ''decay'' \<longrightarrow> returns (stof (snd kv)))"
    by (simp add: p stoi_10 f)
  note t = unknown_backup_ignored [OF a v, of counting 7]
  from t [THEN conjunct1] s obtain m where n: "MixedAI_new counting 7 ?opt = Inr m"
    by (auto simp: returns_iff)
  have r: "run counting [] m = Inr m" by simp
  from t [THEN conjunct2, THEN conjunct1, rule_format, of m "[]" m] n r
  have "backup_ai m = None" and "cout m = [''Unrecognized (key, value) = (zeta,1)'']"
    by (simp_all add: p unrecognized_def)
  moreover from n have "latest_start m = 10 \<and> latest_start_decay m = Infinity False"
    by (auto simp: MixedAI_new_def p stoi_10 f bind_backup_def fresh_def)
  ultimately show ?thesis using n by blast
qed

text \<open>The history: a ring of slots.\<close>

lemma extracts_append: "extracts (xs @ ys) ai = extracts ys (extracts xs ai)"
  by (induction xs arbitrary: ai) simp_all

lemma extracts_respect_fow [simp]: "respect_fow (extracts xs ai) = respect_fow ai"
  by (induction xs arbitrary: ai) (simp_all add: TrainedAI_extract_def Let_def)

lemma ring_new: "0 < C \<Longrightarrow> ring C [] \<lparr>q_v = replicate C [], q_tail = 0, q_sz = 0\<rparr>"
  by (simp add: ring_def)

lemma ring_Push:
  assumes "0 < C" and r: "ring C xs q"
  shows "ring C (xs @ [x]) (Push x q)"
proof -
  let ?n = "length xs"
  from r have l: "length (q_v q) = C" and t: "q_tail q = ?n mod C" and s: "q_sz q = min ?n C"
    and h: "\<And>j. j < ?n \<Longrightarrow> ?n - j \<le> C \<Longrightarrow> q_v q ! (j mod C) = xs ! j"
    by (simp_all add: ring_def)
  have p: "Push x q = q\<lparr>q_v := (q_v q)[?n mod C := x], q_tail := (?n mod C + 1) mod C,
             q_sz := (if q_sz q = C then q_sz q else q_sz q + 1)\<rparr>"
    using assms(1) l t by (simp add: Push_def)
  have 1: "length (q_v (Push x q)) = C" by (simp add: p l)
  have 2: "q_tail (Push x q) = length (xs @ [x]) mod C" by (simp add: p mod_Suc_eq)
  have 3: "q_sz (Push x q) = min (length (xs @ [x])) C" using s by (auto simp: p min_def)
  have 4: "q_v (Push x q) ! (j mod C) = (xs @ [x]) ! j"
    if j: "j < length (xs @ [x])" "length (xs @ [x]) - j \<le> C" for j
  proof (cases "j = ?n")
    case True
    with assms(1) l show ?thesis by (simp add: p)
  next
    case False
    with j have jn: "j < ?n" and c: "?n - j < C" by simp_all
    have "j mod C \<noteq> ?n mod C"
    proof
      assume e: "j mod C = ?n mod C"
      from jn have "j \<le> ?n" by simp
      from mod_eq_dvd_iff_nat [OF this, of C] e have "C dvd ?n - j" by simp
      then have "(?n - j) mod C = 0" by simp
      with c jn show False by simp
    qed
    then have "q_v (Push x q) ! (j mod C) = q_v q ! (j mod C)" by (simp add: p)
    also have "\<dots> = xs ! j" using jn c by (intro h) simp_all
    finally show ?thesis using jn by (simp add: nth_append)
  qed
  from 1 2 3 4 show ?thesis unfolding ring_def by blast
qed

lemma ring_window:
  assumes "0 < C" and r: "ring C xs q"
  shows "window q = drop (length xs - C) xs"
proof (rule nth_equalityI)
  let ?n = "length xs"
  from r have l: "length (q_v q) = C" and t: "q_tail q = ?n mod C" and s: "q_sz q = min ?n C"
    and h: "\<And>j. j < ?n \<Longrightarrow> ?n - j \<le> C \<Longrightarrow> q_v q ! (j mod C) = xs ! j"
    by (simp_all add: ring_def)
  show len: "length (window q) = length (drop (?n - C) xs)"
    by (simp add: window_def s min_def)
  fix i assume "i < length (window q)"
  then have i: "i < min ?n C" by (simp add: window_def s)
  let ?j = "?n - min ?n C + i"
  have j: "?j < ?n" "?n - ?j \<le> C" using i by (simp_all add: min_def split: if_splits)
  define b where "b = C - min ?n C + i"
  have "?n mod C + C - min ?n C + i = ?n mod C + b" by (simp add: b_def)
  then have "(?n mod C + C - min ?n C + i) mod C = (?n mod C + b) mod C" by (rule arg_cong)
  also have "\<dots> = (?n + b) mod C" by (rule mod_add_left_eq)
  also have "?n + b = ?j + C" by (simp add: b_def min_def)
  also have "(?j + C) mod C = ?j mod C" by (rule mod_add_self2)
  finally have m: "(?n mod C + C - min ?n C + i) mod C = ?j mod C" .
  have "window q ! i = q_v q ! ((?n mod C + C - min ?n C + i) mod C)"
    using i by (simp add: window_def l t s)
  also have "\<dots> = xs ! ?j" using h [OF j] by (simp only: m)
  also have "\<dots> = drop (?n - C) xs ! i" using i by (simp add: min_def split: if_splits)
  finally show "window q ! i = drop (?n - C) xs ! i" .
qed

lemma ring_extracts:
  assumes "0 < C" and "ring C xs (recent_states ai)"
  shows "ring C (xs @ ys) (recent_states (extracts ys ai))"
  using assms(2)
proof (induction ys arbitrary: xs ai)
  case Nil
  then show ?case by simp
next
  case (Cons y ys)
  from ring_Push [OF assms(1) Cons.prems, of y]
  have "ring C (xs @ [y]) (recent_states (snd (TrainedAI_extract y ai)))" by (simp add: TrainedAI_extract_def Let_def)
  from Cons.IH [OF this] show ?case by simp
qed

lemma empty_extracts:
  "q_v (recent_states ai) = [] \<Longrightarrow> q_sz (recent_states ai) = 0 \<Longrightarrow>
     q_v (recent_states (extracts ys ai)) = [] \<and> q_sz (recent_states (extracts ys ai)) = 0"
  by (induction ys arbitrary: ai) (simp_all add: TrainedAI_extract_def Let_def Push_def)

lemma history_window:
  assumes "TrainedAI_new opt = Inr ai"
  shows "window (recent_states (extracts xs ai)) = drop (length xs - nat (num_frames_in_state opt)) xs"
proof (cases "0 < num_frames_in_state opt")
  case True
  let ?C = "nat (num_frames_in_state opt)"
  from True have c: "0 < ?C" by simp
  from assms True have "recent_states ai = \<lparr>q_v = replicate ?C [], q_tail = 0, q_sz = 0\<rparr>"
    by (auto simp: TrainedAI_new_def split: if_splits)
  with ring_new [OF c] have "ring ?C [] (recent_states ai)" by simp
  from ring_extracts [OF c this, of xs] have "ring ?C xs (recent_states (extracts xs ai))" by simp
  from ring_window [OF c this] show ?thesis .
next
  case False
  with assms have "q_v (recent_states ai) = []" "q_sz (recent_states ai) = 0"
    by (auto simp: TrainedAI_new_def split: if_splits)
  from empty_extracts [OF this, of xs] False show ?thesis by (simp add: window_def)
qed

subsection \<open>C8: the window that extract copies out\<close>

text \<open>
  Claim C8. A \<open>TrainedAI\<close> is constructed with the frame count \<open>C\<close>, and \<open>extract\<close>
  pushes the feature vectors \<open>xs\<close>, then \<open>x\<close>, \<open>n\<close> vectors in all. The window that the
  last call copies out has at most \<open>C\<close> vectors: exactly \<open>min n C\<close>, and they are the last
  \<open>min n C\<close> vectors pushed, the oldest first. The history and \<open>extract\<close> are those that
  the spec describes.
\<close>

theorem extract_window:
  assumes "TrainedAI_new opt = Inr ai"
    and "C = nat (num_frames_in_state opt)" and "n = length (xs @ [x])"
  shows "length (fst (TrainedAI_extract x (extracts xs ai))) \<le> C
    \<and> length (fst (TrainedAI_extract x (extracts xs ai))) = min n C
    \<and> fst (TrainedAI_extract x (extracts xs ai)) = drop (n - min n C) (xs @ [x])
    \<and> (\<forall>i < min n C. fst (TrainedAI_extract x (extracts xs ai)) ! i = (xs @ [x]) ! (n - min n C + i))"
proof -
  define ys where "ys = xs @ [x]"
  define w where "w = fst (TrainedAI_extract x (extracts xs ai))"
  have "w = window (recent_states (extracts ys ai))"
    by (simp add: w_def ys_def extracts_append TrainedAI_extract_def Let_def)
  also have "\<dots> = drop (length ys - C) ys"
    using history_window [OF assms(1), of ys] assms(2) by simp
  finally have e: "w = drop (length ys - C) ys" .
  have n: "n = length ys" using assms(3) by (simp add: ys_def)
  have d: "n - min n C = n - C" by (simp add: min_def)
  have "length w \<le> C \<and> length w = min n C \<and> w = drop (n - min n C) ys
    \<and> (\<forall>i < min n C. w ! i = ys ! (n - min n C + i))"
    unfolding d e n by (auto simp: min_def)
  then show ?thesis unfolding w_def ys_def .
qed

theorem extract_window_witness:
  "\<exists>ai. TrainedAI_new \<lparr>name = ''trained'', fs = 1, fow = True, num_frames_in_state = 2,
                         args = ''''\<rparr> = Inr ai
     \<and> fst (TrainedAI_extract [Finite 1] ai) = [[Finite 1]]
     \<and> fst (TrainedAI_extract [Finite 3] (extracts [[Finite 1], [Finite 2]] ai)) = [[Finite 2], [Finite 3]]
     \<and> fst (TrainedAI_extract [Finite 5] (extracts [[Finite 1], [Finite 2], [Finite 3], [Finite 4]] ai))
         = [[Finite 4], [Finite 5]]"
proof -
  let ?opt = "\<lparr>name = ''trained'', fs = 1, fow = True, num_frames_in_state = 2, args = ''''\<rparr>"
  obtain ai where a: "TrainedAI_new ?opt = Inr ai" by (simp add: TrainedAI_new_def)
  have c: "(2::nat) = nat (num_frames_in_state ?opt)" by simp
  from extract_window [OF a c, of 1 "[]" "[Finite 1]"]
  have 1: "fst (TrainedAI_extract [Finite 1] ai) = [[Finite 1]]" by simp
  from extract_window [OF a c, of 3 "[[Finite 1], [Finite 2]]" "[Finite 3]"]
  have 2: "fst (TrainedAI_extract [Finite 3] (extracts [[Finite 1], [Finite 2]] ai)) = [[Finite 2], [Finite 3]]"
    by simp
  from extract_window [OF a c, of 5 "[[Finite 1], [Finite 2], [Finite 3], [Finite 4]]" "[Finite 5]"]
  have 3: "fst (TrainedAI_extract [Finite 5] (extracts [[Finite 1], [Finite 2], [Finite 3], [Finite 4]] ai))
         = [[Finite 4], [Finite 5]]"
    by simp
  from a 1 2 3 show ?thesis by blast
qed

text \<open>Integers that single precision holds exactly, and the decay of a small start.\<close>

lemma pow2_powr: "pow2 k = 2 powr (of_int k)"
  by (simp add: pow2_def powr_realpow [symmetric] powr_minus divide_inverse)

lemma pow2_nonzero [simp]: "pow2 k \<noteq> 0"
  using pow2_pos [of k] by (metis less_irrefl)

lemma pow2_le_iff: "pow2 a \<le> pow2 b \<longleftrightarrow> a \<le> b"
  by (simp add: pow2_powr)

lemma pow2_less_iff: "pow2 a < pow2 b \<longleftrightarrow> a < b"
  by (simp add: pow2_powr)

lemma fl_multiple:
  assumes "x / pow2 (exponent x - 23) = of_int j"
  shows "fl x = x"
proof (cases "x = 0")
  case True
  then show ?thesis by simp
next
  case False
  have q: "0 < pow2 (exponent x - 23)" by simp
  from False have "fl x = of_int (round_even (x / pow2 (exponent x - 23))) * pow2 (exponent x - 23)"
    by (simp add: fl_def)
  also have "\<dots> = (x / pow2 (exponent x - 23)) * pow2 (exponent x - 23)"
    by (simp only: assms round_even_of_int)
  also have "\<dots> = x" using q by simp
  finally show ?thesis .
qed

lemma fl_of_int_exact:
  assumes "\<bar>n\<bar> \<le> 2 ^ 24"
  shows "fl (of_int n) = of_int n"
proof (cases "n = 0")
  case True
  then show ?thesis by simp
next
  case False
  define x where "x = real_of_int n"
  define e where "e = exponent x"
  have x0: "x \<noteq> 0" using False by (simp add: x_def)
  have hi: "\<bar>x\<bar> \<le> 2 ^ 24"
  proof -
    have "\<bar>x\<bar> = real_of_int \<bar>n\<bar>" by (simp add: x_def)
    also have "\<dots> \<le> real_of_int (2 ^ 24)" using assms by (simp only: of_int_le_iff)
    finally show ?thesis by simp
  qed
  from exponent_bounds [OF x0] have b: "pow2 e \<le> \<bar>x\<bar>" "\<bar>x\<bar> < pow2 (e + 1)"
    by (simp_all add: e_def)
  have p24: "pow2 24 = 2 ^ 24" by (simp add: pow2_def)
  from b(1) hi have "pow2 e \<le> pow2 24" by (simp add: p24)
  then have e24: "e \<le> 24" by (simp only: pow2_le_iff)
  show ?thesis
  proof (cases "e = 24")
    case True
    with b(1) hi have "\<bar>x\<bar> = 2 ^ 24" by (simp add: p24)
    then have "\<bar>real_of_int n\<bar> = real_of_int (2 ^ 24)" by (simp add: x_def)
    then have "\<bar>n\<bar> = 2 ^ 24" by (metis of_int_abs of_int_eq_iff)
    then have "n = 16777216 \<or> n = - 16777216" by (simp add: abs_if split: if_splits)
    then show ?thesis by (auto simp: fl_evals)
  next
    case False
    with e24 have e23: "e \<le> 23" by simp
    define k where "k = nat (23 - e)"
    have "pow2 (e - 23) * pow2 (23 - e) = 1"
      using pow2_add [of "e - 23" "23 - e"] by (simp add: pow2_def)
    moreover have "pow2 (23 - e) = 2 ^ k" using e23 by (simp add: pow2_def k_def)
    ultimately have "pow2 (e - 23) * 2 ^ k = 1" by simp
    then have "2 ^ k = 1 / pow2 (e - 23)" by (simp add: nonzero_eq_divide_eq mult.commute)
    then have "x / pow2 (e - 23) = x * 2 ^ k" by simp
    also have "\<dots> = of_int (n * 2 ^ k)" by (simp add: x_def)
    finally have "x / pow2 (exponent x - 23) = of_int (n * 2 ^ k)" by (simp add: e_def)
    from fl_multiple [OF this] show ?thesis by (simp add: x_def)
  qed
qed

lemma fl_le: "0 \<le> y \<Longrightarrow> fl y \<le> y * (1 + 1 / 2 ^ 24)"
  using fl_error [of y] by (simp add: abs_if field_simps split: if_splits)

lemma decay_step_small:
  assumes "0 \<le> L" "L \<le> 2 ^ 24" "0 \<le> d" "d \<le> 1"
  shows "\<exists>x. decay_step (Finite d) L = Inr x \<and> 0 \<le> x \<and> x \<le> L
           \<and> real_of_int x \<le> real_of_int L * d * (1 + 1 / 2 ^ 24)
           \<and> (0 < L \<and> d \<le> 1 - 1 / 2 ^ 24 \<longrightarrow> x < L)"
proof -
  define y where "y = real_of_int L * d"
  define v where "v = fl y"
  define x where "x = \<lfloor>v\<rfloor>"
  have Lr: "real_of_int L \<le> 2 ^ 24"
  proof -
    have "real_of_int L \<le> real_of_int (2 ^ 24)" using assms(2) by (simp only: of_int_le_iff)
    then show ?thesis by simp
  qed
  have L0: "0 \<le> real_of_int L" using assms(1) by simp
  have ex: "fl (real_of_int L) = real_of_int L" using assms(1,2) by (intro fl_of_int_exact) simp
  have y0: "0 \<le> y" using assms by (simp add: y_def)
  have yL: "y \<le> real_of_int L" unfolding y_def using assms(4) L0 by (simp add: mult_left_le)
  have v0: "0 \<le> v" unfolding v_def using y0 by (rule fl_nonneg)
  have vy: "v \<le> y * (1 + 1 / 2 ^ 24)" unfolding v_def using y0 by (rule fl_le)
  have x0: "0 \<le> x" using v0 by (simp add: x_def)
  have xv: "real_of_int x \<le> v" by (simp add: x_def)
  have xL: "x \<le> L"
  proof (cases "d = 1")
    case True
    then have "v = real_of_int L" by (simp add: v_def y_def ex)
    then show ?thesis by (simp add: x_def)
  next
    case False
    show ?thesis
    proof (cases "L = 0")
      case True
      then show ?thesis by (simp add: x_def v_def y_def)
    next
      case False
      with assms(1) have Lp: "0 < real_of_int L" by simp
      from \<open>d \<noteq> 1\<close> assms(4) have "d < 1" by simp
      with Lp have "y < real_of_int L" by (simp add: y_def)
      then have "y * (1 + 1 / 2 ^ 24) < real_of_int L * (1 + 1 / 2 ^ 24)" by simp
      also have "\<dots> = real_of_int L + real_of_int L / 2 ^ 24" by (simp add: field_simps)
      also have "\<dots> \<le> real_of_int L + 1" using Lr by simp
      finally have "v < real_of_int L + 1" using vy by simp
      with xv have "real_of_int x < real_of_int (L + 1)" by simp
      then have "x < L + 1" by (simp only: of_int_less_iff)
      then show ?thesis by simp
    qed
  qed
  have st: "x < L" if "0 < L" "d \<le> 1 - 1 / 2 ^ 24"
  proof -
    from that(1) have Lp: "0 < real_of_int L" by simp
    have "y \<le> real_of_int L * (1 - 1 / 2 ^ 24)"
      unfolding y_def using that(2) L0 by (intro mult_left_mono) simp_all
    then have "y * (1 + 1 / 2 ^ 24) \<le> real_of_int L * (1 - 1 / 2 ^ 24) * (1 + 1 / 2 ^ 24)"
      by (intro mult_right_mono) simp_all
    also have "\<dots> = real_of_int L * (1 - 1 / 2 ^ 48)" by (simp add: field_simps)
    also have "\<dots> < real_of_int L" using Lp by simp
    finally have "v < real_of_int L" using vy by simp
    with xv have "real_of_int x < real_of_int L" by simp
    then show ?thesis by (simp only: of_int_less_iff)
  qed
  have r: "in_int_range x" using x0 xL assms(2) by (simp add: in_int_range_def)
  have "decay_step (Finite d) L = Inr x"
    using r v0 by (simp add: decay_step_def Let_def ex float_to_int_def x_def v_def y_def)
  moreover have "real_of_int x \<le> real_of_int L * d * (1 + 1 / 2 ^ 24)"
    using xv vy by (simp add: y_def)
  ultimately show ?thesis using x0 xL st by blast
qed

text \<open>The decay of the start over the games.\<close>

lemma start_after_Suc':
  "start_after D S (Suc k) =
     (case decay_step D S of Inl err \<Rightarrow> Inl err | Inr L \<Rightarrow> start_after D L k)"
  by (induction k) (auto split: sum.splits)

lemma start_after_small:
  assumes "0 \<le> d" "d \<le> 1"
  shows "0 \<le> S \<Longrightarrow> S \<le> 2 ^ 24 \<Longrightarrow>
    \<exists>L. start_after (Finite d) S k = Inr L \<and> 0 \<le> L \<and> L \<le> S
       \<and> real_of_int L \<le> real_of_int S * d ^ k * (1 + 1 / 2 ^ 24) ^ k"
proof (induction k)
  case 0
  then show ?case by simp
next
  case (Suc k)
  from Suc.IH [OF Suc.prems] obtain L where L: "start_after (Finite d) S k = Inr L"
    "0 \<le> L" "L \<le> S" "real_of_int L \<le> real_of_int S * d ^ k * (1 + 1 / 2 ^ 24) ^ k" by blast
  from L(3) Suc.prems(2) have "L \<le> 2 ^ 24" by simp
  from decay_step_small [OF L(2) this assms] obtain x where
    x: "decay_step (Finite d) L = Inr x" "0 \<le> x" "x \<le> L"
    "real_of_int x \<le> real_of_int L * d * (1 + 1 / 2 ^ 24)" by blast
  have "real_of_int L * (d * (1 + 1 / 2 ^ 24))
          \<le> (real_of_int S * d ^ k * (1 + 1 / 2 ^ 24) ^ k) * (d * (1 + 1 / 2 ^ 24))"
    using L(4) assms(1) by (intro mult_right_mono) simp_all
  with x(4) have "real_of_int x \<le> real_of_int S * d ^ Suc k * (1 + 1 / 2 ^ 24) ^ Suc k"
    by (simp add: mult_ac)
  moreover have "start_after (Finite d) S (Suc k) = Inr x" using L(1) x(1) by simp
  moreover have "x \<le> S" using x(3) L(3) by simp
  ultimately show ?case using x(2) by blast
qed

lemma start_after_strict:
  assumes "0 \<le> d" "d \<le> 1 - 1 / 2 ^ 24" "0 \<le> S" "S \<le> 2 ^ 24"
    and "start_after (Finite d) S k = Inr L" "0 < L"
    and "start_after (Finite d) S (Suc k) = Inr L'"
  shows "L' < L"
proof -
  from assms(2) have d1: "d \<le> 1" by simp
  from start_after_small [OF assms(1) d1 assms(3,4), of k] assms(5)
  have "L \<le> 2 ^ 24" using assms(4) by auto
  from decay_step_small [OF _ this assms(1) d1] assms(6,2) obtain x where
    "decay_step (Finite d) L = Inr x" "x < L" by auto
  with assms(5,7) show ?thesis by simp
qed

lemma start_after_countdown:
  assumes "0 \<le> d" "d \<le> 1 - 1 / 2 ^ 24" "0 \<le> S" "S \<le> 2 ^ 24"
  shows "\<exists>L. start_after (Finite d) S k = Inr L \<and> 0 \<le> L \<and> L \<le> max 0 (S - int k)"
proof (induction k)
  case 0
  show ?case using assms(3) by simp
next
  case (Suc k)
  from assms(2) have d1: "d \<le> 1" by simp
  from Suc obtain L where L: "start_after (Finite d) S k = Inr L" "0 \<le> L" "L \<le> max 0 (S - int k)"
    by blast
  from start_after_small [OF assms(1) d1 assms(3,4), of "Suc k"] obtain L' where
    L': "start_after (Finite d) S (Suc k) = Inr L'" "0 \<le> L'" by blast
  have "L' \<le> max 0 (S - int (Suc k))"
  proof (cases "0 < L")
    case True
    from start_after_strict [OF assms L(1) True L'(1)] L(3) show ?thesis by simp
  next
    case False
    with L(2) have "L = 0" by simp
    with L(1) L'(1) have "decay_step (Finite d) 0 = Inr L'" by simp
    moreover from decay_step_small [of 0 d] assms(1) d1
    have "decay_step (Finite d) 0 = Inr 0" by auto
    ultimately show ?thesis by simp
  qed
  with L' show ?case by blast
qed

lemma start_after_vanishes:
  assumes "0 \<le> d" "d \<le> 1 - 1 / 2 ^ 24" "0 \<le> S" "S \<le> 2 ^ 24" "nat S \<le> k"
  shows "start_after (Finite d) S k = Inr 0"
proof -
  from start_after_countdown [OF assms(1-4), of k] obtain L where
    L: "start_after (Finite d) S k = Inr L" "0 \<le> L" "L \<le> max 0 (S - int k)" by blast
  from assms(5) have "S - int k \<le> 0" by simp
  with L show ?thesis by simp
qed

text \<open>Runs: the decayed start and the range of the threshold.\<close>

lemma step_latest_start:
  assumes "step e c m = Inr m'"
  shows "latest_start_decay m' = latest_start_decay m
    \<and> (if is_GameEnd c
        then decay_step (latest_start_decay m) (latest_start m) = Inr (latest_start m')
        else latest_start m' = latest_start m)"
proof (cases c)
  case (CallAct t a d)
  with assms obtain r a' where o: "on_act e t a d m = Inr (r, a', m')"
    using map_sum_snd_snd_Inr [of "on_act e t a d m" m'] by auto
  from on_act_frame(2,3) [OF o] CallAct show ?thesis by simp
next
  case (CallGameEnd t)
  with assms obtain r where "GameEnd e t m = Inr (r, m')"
    using map_sum_snd_Inr [of "GameEnd e t m" m'] by auto
  from GameEnd_frame(4,6) [OF this] CallGameEnd show ?thesis by simp
next
  case (CallSetId x)
  with assms have "m' = MixedAI_SetId e x m" by simp
  with CallSetId show ?thesis by (simp add: MixedAI_SetId_eq)
next
  case (CallSetState y)
  with assms have "MixedAI_SetState e y m = Inr m'" by simp
  with CallSetState show ?thesis by (auto simp: MixedAI_SetState_eq)
next
  case (CallSetMainAI p)
  with assms have "SetMainAI e p m = Inr m'" by simp
  from SetMainAI_frame(2,3) [OF this] CallSetMainAI show ?thesis by simp
qed

lemma run_latest_start:
  "run e cs m = Inr m' \<Longrightarrow>
     latest_start_decay m' = latest_start_decay m
     \<and> start_after (latest_start_decay m) (latest_start m) (episodes cs) = Inr (latest_start m')"
proof (induction cs arbitrary: m)
  case Nil
  then show ?case by (simp add: episodes_def)
next
  case (Cons c cs)
  then obtain m1 where s: "step e c m = Inr m1" and r: "run e cs m1 = Inr m'"
    by (auto split: sum.splits)
  from step_latest_start [OF s] Cons.IH [OF r] show ?case
    by (cases "is_GameEnd c") (simp_all add: episodes_def start_after_Suc' del: start_after.simps)
qed

lemma run_append:
  "run e (cs @ ds) m = (case run e cs m of Inl err \<Rightarrow> Inl err | Inr m1 \<Rightarrow> run e ds m1)"
  by (induction cs arbitrary: m) (auto split: sum.splits)

lemma thres_bound_nonneg: "0 \<le> latest_start m \<Longrightarrow> thres_bound m = latest_start m"
  unfolding thres_bound_def by (rule float_to_int_add_half)

lemma GameEnd_thres_range:
  assumes "GameEnd e t m = Inr (res, m')" and "0 \<le> latest_start m'" "latest_start m' < 2 ^ 31 - 1"
  shows "0 \<le> backup_ai_tick_thres m' \<and> backup_ai_tick_thres m' \<le> latest_start m'"
proof -
  define x where "x = latest_start m'"
  from GameEnd_frame(6) [OF assms(1)]
  have d: "decay_step (latest_start_decay m) (latest_start m) = Inr x" by (simp add: x_def)
  from GameEnd_frame(8) [OF assms(1)] obtain a where a: "main_ai m = Some a" by auto
  have x: "0 \<le> x" "x < 2 ^ 31 - 1" using assms(2,3) by (simp_all add: x_def)
  from GameEnd_ok [OF a d x, of e t] assms(1)
  have t: "backup_ai_tick_thres m' = int (rng m 0 mod 2 ^ 32) mod (x + 1)" by auto
  have p: "0 < x + 1" using x(1) by simp
  from pos_mod_sign [OF p, of "int (rng m 0 mod 2 ^ 32)"]
    pos_mod_bound [OF p, of "int (rng m 0 mod 2 ^ 32)"] t
  show ?thesis by (simp add: x_def)
qed

lemma run_GameEnds_returns:
  assumes "0 \<le> d" "d \<le> 1"
  shows "main_ai m \<noteq> None \<Longrightarrow> latest_start_decay m = Finite d \<Longrightarrow> 0 \<le> latest_start m \<Longrightarrow>
     latest_start m \<le> 2 ^ 24 \<Longrightarrow> returns (run e (replicate k (CallGameEnd t)) m)"
proof (induction k arbitrary: m)
  case 0
  then show ?case by simp
next
  case (Suc k)
  from Suc.prems(1) obtain a where a: "main_ai m = Some a" by auto
  from decay_step_small [OF Suc.prems(3,4) assms] obtain x where
    x: "decay_step (Finite d) (latest_start m) = Inr x" "0 \<le> x" "x \<le> latest_start m" by blast
  from x(3) Suc.prems(4) have x24: "x \<le> 2 ^ 24" by simp
  then have x31: "x < 2 ^ 31 - 1" by simp
  define m1 where "m1 = m\<lparr>main_ai := Some (a\<lparr>impl := snd (sub_GameEnd e a t)\<rparr>),
            latest_start := x,
            backup_ai_tick_thres := int (rng m 0 mod 2 ^ 32) mod (x + 1),
            rng := (\<lambda>n. rng m (Suc n))\<rparr>"
  from x(1) Suc.prems(2) have "decay_step (latest_start_decay m) (latest_start m) = Inr x" by simp
  from GameEnd_ok [OF a this x(2) x31, of e t]
  have g: "GameEnd e t m = Inr (fst (sub_GameEnd e a t), m1)" by (simp add: m1_def)
  have "returns (run e (replicate k (CallGameEnd t)) m1)"
    using Suc.prems(2) x(2) x24 by (intro Suc.IH) (simp_all add: m1_def)
  with g show ?case by simp
qed

lemma fl_below_one:
  assumes "fl d = d" "d < 1"
  shows "d \<le> 1 - 1 / 2 ^ 24"
proof (cases "0 < d")
  case False
  then have "d \<le> 0" by simp
  also have "(0::real) \<le> 1 - 1 / 2 ^ 24" by simp
  finally show ?thesis .
next
  case True
  define e where "e = exponent d"
  from True have d0: "d \<noteq> 0" by simp
  from exponent_bounds [OF d0] True have b: "pow2 e \<le> d" "d < pow2 (e + 1)"
    by (simp_all add: e_def)
  have "pow2 0 = 1" by (simp add: pow2_def)
  with b(1) assms(2) have "pow2 e < pow2 0" by simp
  then have e0: "e < 0" by (simp only: pow2_less_iff)
  show ?thesis
  proof (cases "e = - 1")
    case True
    define r where "r = round_even (d / pow2 (e - 23))"
    have q: "pow2 (e - 23) = 1 / 2 ^ 24" using True by (simp add: pow2_def)
    from assms(1) d0 have "d = of_int r * pow2 (e - 23)" by (simp add: fl_def r_def e_def)
    then have d: "d = real_of_int r / 2 ^ 24" by (simp add: q)
    with assms(2) have "real_of_int r < 2 ^ 24" by (simp add: divide_less_eq)
    then have "real_of_int r < real_of_int (2 ^ 24)" by simp
    then have "r < 2 ^ 24" by (simp only: of_int_less_iff)
    then have "r \<le> 2 ^ 24 - 1" by simp
    then have "real_of_int r \<le> real_of_int (2 ^ 24 - 1)" by (simp only: of_int_le_iff)
    then have "real_of_int r \<le> 2 ^ 24 - 1" by simp
    then have "real_of_int r / 2 ^ 24 \<le> (2 ^ 24 - 1) / 2 ^ 24" by (simp add: divide_right_mono)
    then show ?thesis by (simp add: d)
  next
    case False
    with e0 have "e + 1 \<le> - 1" by simp
    then have "pow2 (e + 1) \<le> pow2 (- 1)" by (simp only: pow2_le_iff)
    also have "pow2 (- 1) = 1 / 2" by (simp add: pow2_def)
    finally have "d < 1 / 2" using b(2) by simp
    then show ?thesis by simp
  qed
qed

subsection \<open>C2: the range of the threshold over the games\<close>

text \<open>
  Claim C2, as stated: with the start \<open>S\<close> and the decay \<open>D\<close>, the threshold drawn at
  the end of the \<open>k\<close>-th game lies in \<open>[0, round(S * D^k)]\<close>, and with \<open>D < 1\<close> this
  bound decreases strictly from one game to the next. Line 132 multiplies in single
  precision and drops the fraction at every game, so the bound of the code is not
  \<open>round(S * D^k)\<close>. With the start 9000000 and the decay 0.9921875, which is
  \<open>127 / 128\<close> and which \<open>std::stof\<close> reads exactly, the start is 8929688 after one
  game (the product 8929687.5 is rounded to even in single precision) and 8859925
  after two, and the second threshold can be 8859925, while \<open>round(S * D^2) = 8859924\<close>.
  With the start 10 and the decay one half the bound of the code is 0 after four games
  and 0 again after five, and \<open>round(S * D^k)\<close> is 1 for \<open>k = 3\<close> and for \<open>k = 4\<close>:
  neither decreases strictly. A start above \<open>2^24\<close> need not be a single-precision
  value: with the start 16777219 and the decay 1 the start after one game is 16777220.
\<close>

theorem decay_schedule_counterexample:
  "(stoi ''9000000'' = Inr 9000000 \<and> stof ''0.9921875'' = Inr (Finite (127 / 128))
     \<and> map_sum id latest_start
         (run counting [CallGameEnd 1, CallGameEnd 2]
            (sample\<lparr>latest_start := 9000000, latest_start_decay := Finite (127 / 128),
               rng := mt19937 counting 8859918\<rparr>)) = Inr 8859925
     \<and> map_sum id backup_ai_tick_thres
         (run counting [CallGameEnd 1, CallGameEnd 2]
            (sample\<lparr>latest_start := 9000000, latest_start_decay := Finite (127 / 128),
               rng := mt19937 counting 8859918\<rparr>)) = Inr 8859925
     \<and> round (9000000 * (127 / 128) ^ 2 :: real) = 8859924)
   \<and> (latest_start sample = 10 \<and> latest_start_decay sample = Finite (1 / 2)
     \<and> map_sum id thres_bound
         (run counting [CallGameEnd 1, CallGameEnd 2, CallGameEnd 3, CallGameEnd 4] sample) = Inr 0
     \<and> map_sum id thres_bound
         (run counting [CallGameEnd 1, CallGameEnd 2, CallGameEnd 3, CallGameEnd 4, CallGameEnd 5]
            sample) = Inr 0
     \<and> round (10 * (1 / 2) ^ 3 :: real) = 1 \<and> round (10 * (1 / 2) ^ 4 :: real) = 1)
   \<and> (map_sum id thres_bound
         (run counting [CallGameEnd 1]
            (sample\<lparr>latest_start := 16777219, latest_start_decay := Finite 1\<rparr>)) = Inr 16777220
     \<and> round (16777219 * 1 ^ 1 :: real) = 16777219)"
proof -
  have i: "stoi ''9000000'' = Inr 9000000" by (simp add: read_defs)
  have s: "stof ''0.9921875'' = Inr (Finite (127 / 128))"
    by (simp add: read_defs fl_evals)
  have d1: "decay_step (Finite (127 / 128)) 9000000 = Inr 8929688"
    by (simp add: decay_defs fl_evals Let_def)
  have d2: "decay_step (Finite (127 / 128)) 8929688 = Inr 8859925"
    by (simp add: decay_defs fl_evals Let_def)
  have g1: "map_sum id latest_start
     (run counting [CallGameEnd 1, CallGameEnd 2]
        (sample\<lparr>latest_start := 9000000, latest_start_decay := Finite (127 / 128),
           rng := mt19937 counting 8859918\<rparr>)) = Inr 8859925"
    by (simp add: sample_def GameEnd_def Let_def rng_draw_def d1 d2 float_to_int_def
        in_int_range_def to_unsigned_def to_Tick_def)
  have g2: "map_sum id backup_ai_tick_thres
     (run counting [CallGameEnd 1, CallGameEnd 2]
        (sample\<lparr>latest_start := 9000000, latest_start_decay := Finite (127 / 128),
           rng := mt19937 counting 8859918\<rparr>)) = Inr 8859925"
    by (simp add: sample_def GameEnd_def Let_def rng_draw_def d1 d2 float_to_int_def
        in_int_range_def to_unsigned_def to_Tick_def)
  have r2: "round (9000000 * (127 / 128) ^ 2 :: real) = 8859924"
    by (simp add: round_def floor_eq_iff power_divide)
  have c: "latest_start sample = 10 \<and> latest_start_decay sample = Finite (1 / 2)"
    by (simp add: sample_def)
  have g4: "map_sum id thres_bound
     (run counting [CallGameEnd 1, CallGameEnd 2, CallGameEnd 3, CallGameEnd 4] sample) = Inr 0"
    by (simp add: sample_def GameEnd_def Let_def rng_draw_def decay_defs fl_evals
        to_unsigned_def to_Tick_def thres_bound_def)
  have g5: "map_sum id thres_bound
     (run counting [CallGameEnd 1, CallGameEnd 2, CallGameEnd 3, CallGameEnd 4, CallGameEnd 5]
        sample) = Inr 0"
    by (simp add: sample_def GameEnd_def Let_def rng_draw_def decay_defs fl_evals
        to_unsigned_def to_Tick_def thres_bound_def)
  have r4: "round (10 * (1 / 2) ^ 3 :: real) = 1 \<and> round (10 * (1 / 2) ^ 4 :: real) = 1"
    by (simp add: round_def floor_eq_iff power_divide)
  have g6: "map_sum id thres_bound
         (run counting [CallGameEnd 1]
            (sample\<lparr>latest_start := 16777219, latest_start_decay := Finite 1\<rparr>)) = Inr 16777220"
    by (simp add: sample_def GameEnd_def Let_def rng_draw_def decay_defs fl_evals
        to_unsigned_def to_Tick_def thres_bound_def)
  have r6: "round (16777219 * 1 ^ 1 :: real) = 16777219" by simp
  from i s g1 g2 r2 c g4 g5 r4 g6 r6 show ?thesis by (intro conjI) simp_all
qed

text \<open>
  Claim C2, amended. Let the start \<open>S\<close> be in \<open>[0, 2^24]\<close> and the decay \<open>D\<close> finite,
  in \<open>[0, 1]\<close>. Any number of calls of \<open>GameEnd\<close> returns when a main agent is installed.
  The start after \<open>k\<close> games, \<open>L\<close>, each game multiplying in single precision and
  dropping the fraction, is in \<open>[0, S]\<close> and at most \<open>S * D^k * (1 + 2^-24)^k\<close>. After a
  run of calls that returns and ends with the \<open>k\<close>-th \<open>GameEnd\<close>, \<open>_latest_start\<close> is that \<open>L\<close>, the
  bound \<open>int(_latest_start + 0.5)\<close> of the draw is \<open>L\<close> too, and the threshold lies in
  \<open>[0, L]\<close>. When \<open>D < 1\<close> is a value that single precision holds, \<open>L\<close> decreases
  strictly with every game as long as it is positive, and it is 0 from the \<open>S\<close>-th
  game on.
\<close>

theorem decay_schedule:
  assumes "latest_start m = S" and "latest_start_decay m = Finite d"
    and "0 \<le> S" and "S \<le> 2 ^ 24" and "0 \<le> d" and "d \<le> 1"
  shows "(main_ai m \<noteq> None \<longrightarrow> returns (run e (replicate k (CallGameEnd t)) m))
    \<and> (\<exists>L. start_after (Finite d) S k = Inr L \<and> 0 \<le> L \<and> L \<le> S
          \<and> real_of_int L \<le> real_of_int S * d ^ k * (1 + 1 / 2 ^ 24) ^ k)
    \<and> (\<forall>cs m'. run e (cs @ [CallGameEnd t]) m = Inr m' \<longrightarrow>
          start_after (Finite d) S (episodes (cs @ [CallGameEnd t])) = Inr (latest_start m')
          \<and> thres_bound m' = latest_start m'
          \<and> 0 \<le> backup_ai_tick_thres m' \<and> backup_ai_tick_thres m' \<le> latest_start m')
    \<and> (d < 1 \<and> fl d = d \<longrightarrow>
          (\<forall>L L'. start_after (Finite d) S k = Inr L \<and> 0 < L
                \<and> start_after (Finite d) S (Suc k) = Inr L' \<longrightarrow> L' < L)
          \<and> (nat S \<le> k \<longrightarrow> start_after (Finite d) S k = Inr 0))"
proof (intro conjI impI allI)
  assume "main_ai m \<noteq> None"
  then show "returns (run e (replicate k (CallGameEnd t)) m)"
    using assms by (intro run_GameEnds_returns [of d]) simp_all
next
  show "\<exists>L. start_after (Finite d) S k = Inr L \<and> 0 \<le> L \<and> L \<le> S
          \<and> real_of_int L \<le> real_of_int S * d ^ k * (1 + 1 / 2 ^ 24) ^ k"
    using assms(3-6) by (intro start_after_small)
next
  fix cs m'
  assume r: "run e (cs @ [CallGameEnd t]) m = Inr m'"
  from run_latest_start [OF r] assms(1,2)
  have s: "start_after (Finite d) S (episodes (cs @ [CallGameEnd t])) = Inr (latest_start m')"
    by simp
  from start_after_small [OF assms(5,6,3,4), of "episodes (cs @ [CallGameEnd t])"] s
  have l: "0 \<le> latest_start m'" "latest_start m' \<le> S" by auto
  from l(2) assms(4) have l31: "latest_start m' < 2 ^ 31 - 1" by simp
  from r obtain m1 where "run e cs m = Inr m1" and "step e (CallGameEnd t) m1 = Inr m'"
    by (auto simp: run_append split: sum.splits)
  then obtain res where g: "GameEnd e t m1 = Inr (res, m')"
    using map_sum_snd_Inr [of "GameEnd e t m1" m'] by auto
  from GameEnd_thres_range [OF g l(1) l31]
  have t: "0 \<le> backup_ai_tick_thres m'" "backup_ai_tick_thres m' \<le> latest_start m'" by simp_all
  show "start_after (Finite d) S (episodes (cs @ [CallGameEnd t])) = Inr (latest_start m')"
    by (rule s)
  show "thres_bound m' = latest_start m'" using l(1) by (rule thres_bound_nonneg)
  show "0 \<le> backup_ai_tick_thres m'" by (rule t(1))
  show "backup_ai_tick_thres m' \<le> latest_start m'" by (rule t(2))
next
  fix L L'
  assume d: "d < 1 \<and> fl d = d"
    and h: "start_after (Finite d) S k = Inr L \<and> 0 < L \<and> start_after (Finite d) S (Suc k) = Inr L'"
  from d have d1: "d \<le> 1 - 1 / 2 ^ 24" by (intro fl_below_one) simp_all
  from h have "start_after (Finite d) S k = Inr L" "0 < L"
    "start_after (Finite d) S (Suc k) = Inr L'" by blast+
  with start_after_strict [OF assms(5) d1 assms(3,4)] show "L' < L" by blast
next
  assume d: "d < 1 \<and> fl d = d" and k: "nat S \<le> k"
  from d have d1: "d \<le> 1 - 1 / 2 ^ 24" by (intro fl_below_one) simp_all
  from start_after_vanishes [OF assms(5) d1 assms(3,4) k]
  show "start_after (Finite d) S k = Inr 0" .
qed

theorem decay_schedule_witness:
  "returns (run counting (replicate 5 (CallGameEnd 0)) sample)
   \<and> start_after (Finite (1 / 2)) 10 2 = Inr 2
   \<and> (\<exists>m'. run counting [CallGameEnd 0, CallGameEnd 0] sample = Inr m'
         \<and> latest_start m' = 2 \<and> thres_bound m' = 2
         \<and> 0 \<le> backup_ai_tick_thres m' \<and> backup_ai_tick_thres m' \<le> 2)
   \<and> start_after (Finite (1 / 2)) 10 3 = Inr 1
   \<and> start_after (Finite (1 / 2)) 10 10 = Inr 0"
proof -
  have a: "latest_start sample = 10" "latest_start_decay sample = Finite (1 / 2)"
    "(0::int) \<le> 10" "(10::int) \<le> 2 ^ 24" "(0::real) \<le> 1 / 2" "(1 / 2 :: real) \<le> 1"
    by (simp_all add: sample_def)
  note w = decay_schedule [OF a, of counting _ 0]
  have mn: "main_ai sample \<noteq> None" by (simp add: sample_def)
  have f: "(1 / 2 :: real) < 1 \<and> fl (1 / 2) = 1 / 2" by (simp add: fl_evals)
  have s1: "decay_step (Finite (1 / 2)) 10 = Inr 5" by (simp add: decay_defs fl_evals Let_def)
  have s2: "decay_step (Finite (1 / 2)) 5 = Inr 2" by (simp add: decay_defs fl_evals Let_def)
  have s3: "decay_step (Finite (1 / 2)) 2 = Inr 1" by (simp add: decay_defs fl_evals Let_def)
  have e2: "start_after (Finite (1 / 2)) 10 2 = Inr 2"
    by (simp add: numeral_2_eq_2 s1 s2)
  have e3: "start_after (Finite (1 / 2)) 10 3 = Inr 1"
    by (simp add: numeral_3_eq_3 s1 s2 s3)
  from w [of 5, THEN conjunct1] mn
  have 1: "returns (run counting (replicate 5 (CallGameEnd 0)) sample)" by simp
  from w [of 2, THEN conjunct1] mn
  have "returns (run counting (replicate 2 (CallGameEnd 0)) sample)" by simp
  then obtain m' where "run counting (replicate 2 (CallGameEnd 0)) sample = Inr m'"
    by (auto simp: returns_iff)
  then have r: "run counting ([CallGameEnd 0] @ [CallGameEnd 0]) sample = Inr m'"
    by (simp add: numeral_2_eq_2)
  from w [of 2, THEN conjunct2, THEN conjunct2, THEN conjunct1, rule_format, OF r]
  have "start_after (Finite (1 / 2)) 10 (episodes ([CallGameEnd 0] @ [CallGameEnd 0]
            :: (nat, string, nat, nat) call list)) = Inr (latest_start m')"
    and tb: "thres_bound m' = latest_start m'"
    and t: "0 \<le> backup_ai_tick_thres m'" "backup_ai_tick_thres m' \<le> latest_start m'"
    by simp_all
  then have "latest_start m' = 2" using e2 by (simp add: episodes_def numeral_2_eq_2)
  with tb t r have 3: "\<exists>m'. run counting [CallGameEnd 0, CallGameEnd 0] sample = Inr m'
         \<and> latest_start m' = 2 \<and> thres_bound m' = 2
         \<and> 0 \<le> backup_ai_tick_thres m' \<and> backup_ai_tick_thres m' \<le> 2"
    by (intro exI [of _ m']) simp
  from w [of 10, THEN conjunct2, THEN conjunct2, THEN conjunct2, rule_format, OF f]
  have 5: "start_after (Finite (1 / 2)) 10 10 = Inr 0" by simp
  from 1 e2 3 e3 5 show ?thesis by (intro conjI)
qed

end
